theory Spec2Isabelle
  imports Main
begin

section \<open>Data model\<close>

text \<open>
  Byte buffers are lists of 8-bit characters. Timestamps are clock readings in
  milliseconds: \<^verbatim>\<open>Date.now()\<close> is the reading itself and \<^verbatim>\<open>nowIso()\<close> is its ISO-8601
  rendering, which the model does not distinguish from the reading.
\<close>

type_synonym bytes = string

datatype RoundStatus = CREATED | RECORDING | STREAMING | PROCESSING | COMPLETED | ERROR

record Round =
  r_id :: string
  r_name :: string
  r_description :: "string option"
  r_created_at :: string
  r_status :: RoundStatus
  r_language :: "string option"
  r_audio_file :: "string option"
  r_transcription_file :: "string option"
  r_duration_seconds :: "int option"
  r_speaker_count :: "int option"

text \<open>\<^verbatim>\<open>Partial<Round>\<close>: every field may be absent; an optional field may also be
  present with the value \<^verbatim>\<open>undefined\<close>.\<close>

record RoundUpdates =
  up_id :: "string option"
  up_name :: "string option"
  up_description :: "string option option"
  up_created_at :: "string option"
  up_status :: "RoundStatus option"
  up_language :: "string option option"
  up_audio_file :: "string option option"
  up_transcription_file :: "string option option"
  up_duration_seconds :: "int option option"
  up_speaker_count :: "int option option"

datatype TranscriptionJobStatus = JobQueued | JobProcessing | JobCompleted | JobError

datatype JobSource = Recording | Upload

record TranscriptionJob =
  j_id :: string
  j_roundId :: string
  j_audioPath :: string
  j_source :: JobSource
  j_status :: TranscriptionJobStatus
  j_attempts :: int
  j_createdAt :: int
  j_updatedAt :: int
  j_lastError :: "string option"

text \<open>\<^verbatim>\<open>Partial<TranscriptionJob>\<close>.\<close>

record JobUpdates =
  ju_id :: "string option"
  ju_roundId :: "string option"
  ju_audioPath :: "string option"
  ju_source :: "JobSource option"
  ju_status :: "TranscriptionJobStatus option"
  ju_attempts :: "int option"
  ju_createdAt :: "int option"
  ju_updatedAt :: "int option"
  ju_lastError :: "string option option"

text \<open>The lock file holds \<^verbatim>\<open>{pid, startedAt}\<close>; between its exclusive creation and the
  write of that JSON it is empty, and then neither parses nor carries a \<^verbatim>\<open>startedAt\<close>.\<close>

datatype LockContent = LockInfo nat int | LockUnreadable

record ChunkManifest =
  m_roundId :: string
  m_mimeType :: string
  m_totalChunks :: int
  m_receivedSequences :: "int list"
  m_startTime :: int
  m_lastUpdate :: int

text \<open>One directory \<^verbatim>\<open>data/chunks/<roundId>\<close>: the chunk files (named by the zero-padded
  sequence number, an injective naming) and \<^verbatim>\<open>manifest.json\<close>.\<close>

record ChunkDir =
  chunk_files :: "int \<rightharpoonup> bytes"
  manifest_json :: "ChunkManifest option"

text \<open>The files and the process state the modelled functions read and write.\<close>

record world =
  chunk_dirs :: "string \<Rightarrow> ChunkDir option"
  audio_dir :: "string \<rightharpoonup> bytes"
  transcription_dir :: "string set"
  rounds_file :: "Round list"
  queue_file :: "TranscriptionJob list"
  lock_file :: "LockContent option"
  clock :: int
  workerStarted :: bool
  loop_running :: bool

text \<open>The exceptions of the model: the lock timeout thrown by \<^verbatim>\<open>withLock\<close>, and the two
  ways a chunk-store call fails (a chunk that cannot be read, a write that is refused).\<close>

datatype QueueError = QueueLockTimeout

datatype StoreError = MissingChunk int | WriteFailed

text \<open>What the \<^verbatim>\<open>fs.writeFile\<close> calls of one chunk-store call do: each flag says whether
  the write of that kind goes through. All other file operations succeed or fail as the
  modelled files determine.\<close>

record FsOutcome =
  chunk_write_ok :: bool
  manifest_write_ok :: bool
  artifact_write_ok :: bool

section \<open>Array helpers\<close>

fun findIndex_from :: "nat \<Rightarrow> ('a \<Rightarrow> bool) \<Rightarrow> 'a list \<Rightarrow> nat option" where
  "findIndex_from k P [] = None"
| "findIndex_from k P (x # xs) = (if P x then Some k else findIndex_from (Suc k) P xs)"

definition findIndex :: "('a \<Rightarrow> bool) \<Rightarrow> 'a list \<Rightarrow> nat option" where
  "findIndex P xs = findIndex_from 0 P xs"

section \<open>Round storage (rounds.js and its TypeScript twin)\<close>

definition getRound :: "world \<Rightarrow> string \<Rightarrow> Round option" where
  "getRound w roundId = find (\<lambda>r. r_id r = roundId) (rounds_file w)"

definition apply_opt :: "'a option \<Rightarrow> 'a \<Rightarrow> 'a" where
  "apply_opt u old = (case u of None \<Rightarrow> old | Some v \<Rightarrow> v)"

definition merge_round :: "Round \<Rightarrow> RoundUpdates \<Rightarrow> Round" where
  "merge_round r u =
     \<lparr> r_id = apply_opt (up_id u) (r_id r),
       r_name = apply_opt (up_name u) (r_name r),
       r_description = apply_opt (up_description u) (r_description r),
       r_created_at = apply_opt (up_created_at u) (r_created_at r),
       r_status = apply_opt (up_status u) (r_status r),
       r_language = apply_opt (up_language u) (r_language r),
       r_audio_file = apply_opt (up_audio_file u) (r_audio_file r),
       r_transcription_file = apply_opt (up_transcription_file u) (r_transcription_file r),
       r_duration_seconds = apply_opt (up_duration_seconds u) (r_duration_seconds r),
       r_speaker_count = apply_opt (up_speaker_count u) (r_speaker_count r) \<rparr>"

definition no_round_updates :: RoundUpdates where
  "no_round_updates =
     \<lparr> up_id = None, up_name = None, up_description = None, up_created_at = None,
       up_status = None, up_language = None, up_audio_file = None,
       up_transcription_file = None, up_duration_seconds = None, up_speaker_count = None \<rparr>"

definition updateRound :: "world \<Rightarrow> string \<Rightarrow> RoundUpdates \<Rightarrow> world \<times> Round option" where
  "updateRound w roundId updates =
     (case findIndex (\<lambda>r. r_id r = roundId) (rounds_file w) of
        None \<Rightarrow> (w, None)
      | Some index \<Rightarrow>
          (let merged = merge_round (rounds_file w ! index) updates
           in (w\<lparr>rounds_file := (rounds_file w)[index := merged]\<rparr>, Some merged)))"

definition transcriptionExists :: "world \<Rightarrow> string \<Rightarrow> bool" where
  "transcriptionExists w roundId = (roundId \<in> transcription_dir w)"

section \<open>Queue lock (transcription-queue.ts)\<close>

definition LOCK_TTL_MS :: int where
  "LOCK_TTL_MS = 10 * 60 * 1000"

definition POLL_INTERVAL_MS :: int where
  "POLL_INTERVAL_MS = 2000"

definition MAX_ATTEMPTS :: int where
  "MAX_ATTEMPTS = 3"

definition maxRetries :: nat where
  "maxRetries = 20"

definition retryDelayMs :: int where
  "retryDelayMs = 100"

text \<open>\<^verbatim>\<open>setTimeout(resolve, ms)\<close>: the clock moves on by the delay.\<close>

definition sleep :: "int \<Rightarrow> world \<Rightarrow> world" where
  "sleep ms w = w\<lparr>clock := clock w + ms\<rparr>"

text \<open>
  \<^verbatim>\<open>fs.open(LOCK_FILE, 'wx')\<close> succeeds exactly when no lock file exists. Otherwise the
  file is read: a recorded \<^verbatim>\<open>startedAt\<close> older than the TTL makes the caller unlink the
  file and start over; anything else (a younger lock, unreadable content) returns false.
\<close>

function acquireLock :: "nat \<Rightarrow> world \<Rightarrow> world \<times> bool" where
  "acquireLock pid w =
     (case lock_file w of
        None \<Rightarrow> (w\<lparr>lock_file := Some (LockInfo pid (clock w))\<rparr>, True)
      | Some content \<Rightarrow>
          (case content of
             LockUnreadable \<Rightarrow> (w, False)
           | LockInfo holder startedAt \<Rightarrow>
               if clock w - startedAt > LOCK_TTL_MS
               then acquireLock pid (w\<lparr>lock_file := None\<rparr>)
               else (w, False)))"
  by pat_completeness auto
termination
  by (relation "measure (\<lambda>(pid, w). case lock_file w of None \<Rightarrow> 0 | Some c \<Rightarrow> 1)") auto

definition releaseLock :: "world \<Rightarrow> world" where
  "releaseLock w = w\<lparr>lock_file := None\<rparr>"

function withLock_loop ::
  "nat \<Rightarrow> (world \<Rightarrow> world \<times> (QueueError + 'a)) \<Rightarrow> nat \<Rightarrow> world \<Rightarrow> world \<times> (QueueError + 'a)" where
  "withLock_loop pid fn attempt w =
     (if attempt < maxRetries then
        (case acquireLock pid w of
           (w1, gotLock) \<Rightarrow>
             if \<not> gotLock then withLock_loop pid fn (attempt + 1) (sleep retryDelayMs w1)
             else (case fn w1 of (w2, r) \<Rightarrow> (releaseLock w2, r)))
      else (w, Inl QueueLockTimeout))"
  by pat_completeness auto
termination
  by (relation "measure (\<lambda>(pid, fn, attempt, w). maxRetries - attempt)") auto

definition withLock :: "nat \<Rightarrow> (world \<Rightarrow> world \<times> (QueueError + 'a)) \<Rightarrow> world \<Rightarrow> world \<times> (QueueError + 'a)" where
  "withLock pid fn w = withLock_loop pid fn 0 w"

section \<open>Queue operations (transcription-queue.ts)\<close>

record EnqueueInput =
  in_roundId :: string
  in_audioPath :: string
  in_source :: JobSource

definition is_active :: "TranscriptionJob \<Rightarrow> bool" where
  "is_active job = (j_status job = JobQueued \<or> j_status job = JobProcessing)"

text \<open>The closure handed to \<^verbatim>\<open>withLock\<close> by \<^verbatim>\<open>enqueueTranscriptionJob\<close>; \<open>uuid\<close> is the
  value \<^verbatim>\<open>uuidv4()\<close> returns.\<close>

definition enqueue_locked ::
  "EnqueueInput \<Rightarrow> string \<Rightarrow> world \<Rightarrow> world \<times> (QueueError + TranscriptionJob)" where
  "enqueue_locked input uuid w =
     (case find (\<lambda>job. j_roundId job = in_roundId input \<and>
                      (j_status job = JobQueued \<or> j_status job = JobProcessing))
                (queue_file w) of
        Some existing \<Rightarrow> (w, Inr existing)
      | None \<Rightarrow>
          (let job = \<lparr> j_id = uuid, j_roundId = in_roundId input,
                       j_audioPath = in_audioPath input, j_source = in_source input,
                       j_status = JobQueued, j_attempts = 0,
                       j_createdAt = clock w, j_updatedAt = clock w,
                       j_lastError = None \<rparr>
           in (w\<lparr>queue_file := queue_file w @ [job]\<rparr>, Inr job)))"

definition enqueueTranscriptionJob ::
  "nat \<Rightarrow> EnqueueInput \<Rightarrow> string \<Rightarrow> world \<Rightarrow> world \<times> (QueueError + TranscriptionJob)" where
  "enqueueTranscriptionJob pid input uuid w = withLock pid (enqueue_locked input uuid) w"

definition merge_job :: "TranscriptionJob \<Rightarrow> JobUpdates \<Rightarrow> int \<Rightarrow> TranscriptionJob" where
  "merge_job job u now =
     \<lparr> j_id = apply_opt (ju_id u) (j_id job),
       j_roundId = apply_opt (ju_roundId u) (j_roundId job),
       j_audioPath = apply_opt (ju_audioPath u) (j_audioPath job),
       j_source = apply_opt (ju_source u) (j_source job),
       j_status = apply_opt (ju_status u) (j_status job),
       j_attempts = apply_opt (ju_attempts u) (j_attempts job),
       j_createdAt = apply_opt (ju_createdAt u) (j_createdAt job),
       j_updatedAt = now,
       j_lastError = apply_opt (ju_lastError u) (j_lastError job) \<rparr>"

definition no_job_updates :: JobUpdates where
  "no_job_updates =
     \<lparr> ju_id = None, ju_roundId = None, ju_audioPath = None, ju_source = None,
       ju_status = None, ju_attempts = None, ju_createdAt = None, ju_updatedAt = None,
       ju_lastError = None \<rparr>"

definition update_locked ::
  "string \<Rightarrow> JobUpdates \<Rightarrow> world \<Rightarrow> world \<times> (QueueError + TranscriptionJob option)" where
  "update_locked jobId updates w =
     (case findIndex (\<lambda>job. j_id job = jobId) (queue_file w) of
        None \<Rightarrow> (w, Inr None)
      | Some index \<Rightarrow>
          (let updated = merge_job (queue_file w ! index) updates (clock w)
           in (w\<lparr>queue_file := (queue_file w)[index := updated]\<rparr>, Inr (Some updated))))"

definition updateJob ::
  "nat \<Rightarrow> string \<Rightarrow> JobUpdates \<Rightarrow> world \<Rightarrow> world \<times> (QueueError + TranscriptionJob option)" where
  "updateJob pid jobId updates w = withLock pid (update_locked jobId updates) w"

text \<open>\<^verbatim>\<open>find\<close> returns the array element itself, so the three assignments change the
  element at the index of the first match.\<close>

definition claim_locked :: "world \<Rightarrow> world \<times> (QueueError + TranscriptionJob option)" where
  "claim_locked w =
     (case findIndex (\<lambda>job. j_status job = JobQueued \<and> j_attempts job < MAX_ATTEMPTS)
                     (queue_file w) of
        None \<Rightarrow> (w, Inr None)
      | Some index \<Rightarrow>
          (let next = (queue_file w ! index)
                        \<lparr> j_status := JobProcessing,
                          j_attempts := j_attempts (queue_file w ! index) + 1,
                          j_updatedAt := clock w \<rparr>
           in (w\<lparr>queue_file := (queue_file w)[index := next]\<rparr>, Inr (Some next))))"

definition claimNextJob :: "nat \<Rightarrow> world \<Rightarrow> world \<times> (QueueError + TranscriptionJob option)" where
  "claimNextJob pid w = withLock pid claim_locked w"

text \<open>The \<^verbatim>\<open>for (const job of queue.jobs)\<close> loop of \<^verbatim>\<open>recoverQueue\<close>: it returns the jobs
  as mutated, the world after the round updates, and the \<^verbatim>\<open>updated\<close> flag.\<close>

fun recover_jobs ::
  "TranscriptionJob list \<Rightarrow> world \<Rightarrow> bool \<Rightarrow> TranscriptionJob list \<times> world \<times> bool" where
  "recover_jobs [] w updated = ([], w, updated)"
| "recover_jobs (job # rest) w updated =
     (if j_status job \<noteq> JobProcessing then
        (case recover_jobs rest w updated of (js, w', u) \<Rightarrow> (job # js, w', u))
      else if transcriptionExists w (j_roundId job) then
        (case recover_jobs rest
                (fst (updateRound w (j_roundId job) (no_round_updates\<lparr>up_status := Some COMPLETED\<rparr>)))
                True of
           (js, w', u) \<Rightarrow> (job\<lparr>j_status := JobCompleted, j_updatedAt := clock w\<rparr> # js, w', u))
      else if j_attempts job < MAX_ATTEMPTS then
        (case recover_jobs rest w True of
           (js, w', u) \<Rightarrow> (job\<lparr>j_status := JobQueued, j_updatedAt := clock w\<rparr> # js, w', u))
      else
        (case recover_jobs rest
                (fst (updateRound w (j_roundId job) (no_round_updates\<lparr>up_status := Some ERROR\<rparr>)))
                True of
           (js, w', u) \<Rightarrow> (job\<lparr>j_status := JobError, j_updatedAt := clock w\<rparr> # js, w', u)))"

definition recover_locked :: "world \<Rightarrow> world \<times> (QueueError + unit)" where
  "recover_locked w =
     (case recover_jobs (queue_file w) w False of
        (js, w', updated) \<Rightarrow>
          ((if updated then w'\<lparr>queue_file := js\<rparr> else w'), Inr ()))"

definition recoverQueue :: "nat \<Rightarrow> world \<Rightarrow> world \<times> (QueueError + unit)" where
  "recoverQueue pid w = withLock pid recover_locked w"

section \<open>Worker (transcription-queue.ts)\<close>

text \<open>What the engine run of \<^verbatim>\<open>processJob\<close> comes to: a transcript with its duration and
  speaker count, saved, or an exception (missing audio, engine failure, a transcript that
  cannot be saved) with its message.\<close>

datatype EngineOutcome = Transcribed int int | EngineFailure string

definition saveTranscription :: "world \<Rightarrow> string \<Rightarrow> world" where
  "saveTranscription w roundId = w\<lparr>transcription_dir := insert roundId (transcription_dir w)\<rparr>"

definition error_message :: "QueueError \<Rightarrow> string" where
  "error_message e = (case e of QueueLockTimeout \<Rightarrow> ''Queue lock timeout.'')"

definition processJob_catch ::
  "nat \<Rightarrow> string \<Rightarrow> TranscriptionJob \<Rightarrow> world \<Rightarrow> world \<times> (QueueError + unit)" where
  "processJob_catch pid message job w =
     (let w1 = fst (updateRound w (j_roundId job) (no_round_updates\<lparr>up_status := Some ERROR\<rparr>))
      in case updateJob pid (j_id job)
                (no_job_updates\<lparr>ju_status := Some JobError, ju_lastError := Some (Some message)\<rparr>) w1 of
           (w2, Inl e) \<Rightarrow> (w2, Inl e)
         | (w2, Inr u) \<Rightarrow> (w2, Inr ()))"

definition processJob ::
  "nat \<Rightarrow> EngineOutcome \<Rightarrow> TranscriptionJob \<Rightarrow> world \<Rightarrow> world \<times> (QueueError + unit)" where
  "processJob pid outcome job w =
     (case getRound w (j_roundId job) of
        None \<Rightarrow>
          (case updateJob pid (j_id job)
                  (no_job_updates\<lparr>ju_status := Some JobError,
                                   ju_lastError := Some (Some ''Round not found'')\<rparr>) w of
             (w1, Inl e) \<Rightarrow> (w1, Inl e)
           | (w1, Inr u) \<Rightarrow> (w1, Inr ()))
      | Some round \<Rightarrow>
          (case outcome of
             EngineFailure message \<Rightarrow> processJob_catch pid message job w
           | Transcribed duration speakers \<Rightarrow>
               (let w1 = saveTranscription w (j_roundId job);
                    w2 = fst (updateRound w1 (j_roundId job)
                           (no_round_updates\<lparr>up_status := Some COMPLETED,
                              up_transcription_file := Some (Some (j_roundId job @ ''_deliberation.json'')),
                              up_duration_seconds := Some (Some duration),
                              up_speaker_count := Some (Some speakers)\<rparr>))
                in case updateJob pid (j_id job)
                          (no_job_updates\<lparr>ju_status := Some JobCompleted,
                                           ju_lastError := Some None\<rparr>) w2 of
                     (w3, Inl e) \<Rightarrow> processJob_catch pid (error_message e) job w3
                   | (w3, Inr u) \<Rightarrow> (w3, Inr ()))))"

text \<open>The calls into the queue that the worker makes, in the order it makes them.\<close>

datatype QueueCall = CallRecoverQueue | CallClaimNextJob "TranscriptionJob option"

text \<open>\<^verbatim>\<open>startTranscriptionWorker\<close>: the module flag \<^verbatim>\<open>workerStarted\<close> gates everything; the
  polling loop is started (not awaited) only after \<^verbatim>\<open>recoverQueue\<close> has returned. The
  loop catches whatever its body throws, so it never rejects and the flag is never reset.\<close>

definition startTranscriptionWorker ::
  "nat \<Rightarrow> world \<Rightarrow> world \<times> QueueCall list \<times> (QueueError + unit)" where
  "startTranscriptionWorker pid w =
     (if workerStarted w then (w, [], Inr ())
      else
        (case recoverQueue pid (w\<lparr>workerStarted := True\<rparr>) of
           (w1, Inl e) \<Rightarrow> (w1, [CallRecoverQueue], Inl e)
         | (w1, Inr u) \<Rightarrow> (w1\<lparr>loop_running := True\<rparr>, [CallRecoverQueue], Inr ())))"

text \<open>One pass through the body of the \<^verbatim>\<open>while (true)\<close> loop.\<close>

definition worker_iteration ::
  "nat \<Rightarrow> EngineOutcome \<Rightarrow> world \<Rightarrow> world \<times> QueueCall list" where
  "worker_iteration pid outcome w =
     (case claimNextJob pid w of
        (w1, Inl e) \<Rightarrow> (sleep POLL_INTERVAL_MS w1, [])
      | (w1, Inr None) \<Rightarrow> (sleep POLL_INTERVAL_MS w1, [CallClaimNextJob None])
      | (w1, Inr (Some job)) \<Rightarrow>
          (case processJob pid outcome job w1 of
             (w2, Inl e) \<Rightarrow> (sleep POLL_INTERVAL_MS w2, [CallClaimNextJob (Some job)])
           | (w2, Inr u) \<Rightarrow> (w2, [CallClaimNextJob (Some job)])))"

text \<open>What one server process does to the queue, as a sequence of actions: a call of
  \<^verbatim>\<open>startTranscriptionWorker\<close>, a pass of the polling loop (possible only once the loop
  runs), a call of \<^verbatim>\<open>enqueueTranscriptionJob\<close>.\<close>

datatype Action = AStart | AIterate EngineOutcome | AEnqueue EnqueueInput string

fun step :: "nat \<Rightarrow> Action \<Rightarrow> world \<Rightarrow> world \<times> QueueCall list" where
  "step pid AStart w = (case startTranscriptionWorker pid w of (w1, calls, r) \<Rightarrow> (w1, calls))"
| "step pid (AIterate outcome) w =
     (if loop_running w then worker_iteration pid outcome w else (w, []))"
| "step pid (AEnqueue input uuid) w = (fst (enqueueTranscriptionJob pid input uuid w), [])"

fun run :: "nat \<Rightarrow> Action list \<Rightarrow> world \<Rightarrow> world \<times> QueueCall list" where
  "run pid [] w = (w, [])"
| "run pid (a # rest) w =
     (case step pid a w of
        (w1, calls1) \<Rightarrow> (case run pid rest w1 of (w2, calls2) \<Rightarrow> (w2, calls1 @ calls2)))"

section \<open>Chunk store, TypeScript implementation (storage/files.ts)\<close>

definition empty_chunk_dir :: ChunkDir where
  "empty_chunk_dir = \<lparr> chunk_files = Map.empty, manifest_json = None \<rparr>"

text \<open>\<^verbatim>\<open>fs.mkdir(chunkDir, {recursive: true})\<close>.\<close>

definition ensureChunkDirectory_ts :: "world \<Rightarrow> string \<Rightarrow> world" where
  "ensureChunkDirectory_ts w roundId =
     (case chunk_dirs w roundId of
        None \<Rightarrow> w\<lparr>chunk_dirs := (chunk_dirs w)(roundId := Some empty_chunk_dir)\<rparr>
      | Some d \<Rightarrow> w)"

text \<open>A manifest that cannot be read is replaced by a fresh one; the write of the manifest
  fails when its directory does not exist or when the write itself is refused.\<close>

definition updateChunkManifest_ts ::
  "FsOutcome \<Rightarrow> world \<Rightarrow> string \<Rightarrow> int \<Rightarrow> string \<Rightarrow> world \<times> (StoreError + unit)" where
  "updateChunkManifest_ts io w roundId sequence mimeType =
     (let manifest0 =
            (case chunk_dirs w roundId of
               None \<Rightarrow> None
             | Some d \<Rightarrow> manifest_json d);
          manifest =
            (case manifest0 of
               Some m \<Rightarrow> m
             | None \<Rightarrow> \<lparr> m_roundId = roundId, m_mimeType = mimeType, m_totalChunks = 0,
                          m_receivedSequences = [], m_startTime = clock w,
                          m_lastUpdate = clock w \<rparr>);
          manifest1 =
            (if sequence \<notin> set (m_receivedSequences manifest)
             then manifest\<lparr>m_receivedSequences := sort (m_receivedSequences manifest @ [sequence])\<rparr>
             else manifest);
          manifest2 =
            manifest1\<lparr> m_lastUpdate := clock w,
                         m_totalChunks := max (m_totalChunks manifest1) (sequence + 1) \<rparr>
      in case chunk_dirs w roundId of
           None \<Rightarrow> (w, Inl WriteFailed)
         | Some d \<Rightarrow>
             if \<not> manifest_write_ok io then (w, Inl WriteFailed)
             else (w\<lparr>chunk_dirs := (chunk_dirs w)(roundId := Some (d\<lparr>manifest_json := Some manifest2\<rparr>))\<rparr>,
                   Inr ()))"

definition saveChunk_ts ::
  "FsOutcome \<Rightarrow> world \<Rightarrow> string \<Rightarrow> int \<Rightarrow> bytes \<Rightarrow> world \<times> (StoreError + unit)" where
  "saveChunk_ts io w roundId sequence buffer =
     (let w1 = ensureChunkDirectory_ts w roundId
      in if \<not> chunk_write_ok io then (w1, Inl WriteFailed)
         else
           (case chunk_dirs w1 roundId of
              None \<Rightarrow> (w1, Inl WriteFailed)
            | Some d \<Rightarrow>
                updateChunkManifest_ts io
                  (w1\<lparr>chunk_dirs := (chunk_dirs w1)
                        (roundId := Some (d\<lparr>chunk_files := (chunk_files d)(sequence \<mapsto> buffer)\<rparr>))\<rparr>)
                  roundId sequence ''audio/webm''))"

definition getChunkManifest_ts :: "world \<Rightarrow> string \<Rightarrow> ChunkManifest option" where
  "getChunkManifest_ts w roundId =
     (case chunk_dirs w roundId of
        None \<Rightarrow> None
      | Some d \<Rightarrow> manifest_json d)"

function missing_loop_ts :: "int list \<Rightarrow> int \<Rightarrow> int \<Rightarrow> int list \<Rightarrow> int list" where
  "missing_loop_ts received i expectedTotal missing =
     (if i < expectedTotal then
        missing_loop_ts received (i + 1) expectedTotal
          (if i \<notin> set received then missing @ [i] else missing)
      else missing)"
  by pat_completeness auto
termination
  by (relation "measure (\<lambda>(received, i, expectedTotal, missing). nat (expectedTotal - i))") auto

text \<open>\<^verbatim>\<open>Array.from({length: n}, (_, i) => i)\<close> is \<open>0, \<dots>, n - 1\<close>, and empty for \<open>n \<le> 0\<close>.\<close>

definition findMissingChunks_ts :: "world \<Rightarrow> string \<Rightarrow> int \<Rightarrow> int list" where
  "findMissingChunks_ts w roundId expectedTotal =
     (case getChunkManifest_ts w roundId of
        None \<Rightarrow> map int [0 ..< nat expectedTotal]
      | Some manifest \<Rightarrow> missing_loop_ts (m_receivedSequences manifest) 0 expectedTotal [])"

text \<open>\<^verbatim>\<open>String.prototype.split\<close> on a one-character separator.\<close>

fun split_on :: "char \<Rightarrow> string \<Rightarrow> string list" where
  "split_on c [] = [[]]"
| "split_on c (x # xs) =
     (if x = c then [] # split_on c xs
      else (case split_on c xs of
              [] \<Rightarrow> [[x]]
            | y # ys \<Rightarrow> (x # y) # ys))"

text \<open>\<^verbatim>\<open>mimeType.split('/')[1] || 'webm'\<close>.\<close>

definition extension_of :: "string \<Rightarrow> string" where
  "extension_of mimeType =
     (case split_on CHR ''/'' mimeType of
        a # b # rest \<Rightarrow> (if b = [] then ''webm'' else b)
      | other \<Rightarrow> ''webm'')"

text \<open>The read loop of \<^verbatim>\<open>assembleChunks\<close>: a chunk file that cannot be read throws
  \<^verbatim>\<open>Missing chunk i\<close>.\<close>

function read_chunks_ts ::
  "(int \<rightharpoonup> bytes) \<Rightarrow> int \<Rightarrow> int \<Rightarrow> bytes list \<Rightarrow> StoreError + bytes list" where
  "read_chunks_ts files i totalChunks chunks =
     (if i < totalChunks then
        (case files i of
           None \<Rightarrow> Inl (MissingChunk i)
         | Some chunkBuffer \<Rightarrow> read_chunks_ts files (i + 1) totalChunks (chunks @ [chunkBuffer]))
      else Inr chunks)"
  by pat_completeness auto
termination
  by (relation "measure (\<lambda>(files, i, totalChunks, chunks). nat (totalChunks - i))") auto

definition assembleChunks_ts ::
  "FsOutcome \<Rightarrow> world \<Rightarrow> string \<Rightarrow> int \<Rightarrow> string \<Rightarrow> world \<times> (StoreError + string)" where
  "assembleChunks_ts io w roundId totalChunks mimeType =
     (let extension = extension_of mimeType;
          outputName = roundId @ ''.'' @ extension;
          files = (case chunk_dirs w roundId of None \<Rightarrow> Map.empty | Some d \<Rightarrow> chunk_files d)
      in case read_chunks_ts files 0 totalChunks [] of
           Inl e \<Rightarrow> (w, Inl e)
         | Inr chunks \<Rightarrow>
             if \<not> artifact_write_ok io then (w, Inl WriteFailed)
             else (w\<lparr> audio_dir := (audio_dir w)(outputName \<mapsto> concat chunks),
                       chunk_dirs := (chunk_dirs w)(roundId := None) \<rparr>,
                   Inr (''/audio/'' @ outputName)))"

section \<open>Chunk store, CommonJS implementation (storage/files.js)\<close>

definition ensureChunkDirectory_js :: "world \<Rightarrow> string \<Rightarrow> world" where
  "ensureChunkDirectory_js w roundId =
     (case chunk_dirs w roundId of
        None \<Rightarrow> w\<lparr>chunk_dirs := (chunk_dirs w)(roundId := Some empty_chunk_dir)\<rparr>
      | Some d \<Rightarrow> w)"

definition updateChunkManifest_js ::
  "FsOutcome \<Rightarrow> world \<Rightarrow> string \<Rightarrow> int \<Rightarrow> string \<Rightarrow> world \<times> (StoreError + unit)" where
  "updateChunkManifest_js io w roundId sequence mimeType =
     (let manifest0 =
            (case chunk_dirs w roundId of
               None \<Rightarrow> None
             | Some d \<Rightarrow> manifest_json d);
          manifest =
            (case manifest0 of
               Some m \<Rightarrow> m
             | None \<Rightarrow> \<lparr> m_roundId = roundId, m_mimeType = mimeType, m_totalChunks = 0,
                          m_receivedSequences = [], m_startTime = clock w,
                          m_lastUpdate = clock w \<rparr>);
          manifest1 =
            (if sequence \<notin> set (m_receivedSequences manifest)
             then manifest\<lparr>m_receivedSequences := sort (m_receivedSequences manifest @ [sequence])\<rparr>
             else manifest);
          manifest2 =
            manifest1\<lparr> m_lastUpdate := clock w,
                         m_totalChunks := max (m_totalChunks manifest1) (sequence + 1) \<rparr>
      in case chunk_dirs w roundId of
           None \<Rightarrow> (w, Inl WriteFailed)
         | Some d \<Rightarrow>
             if \<not> manifest_write_ok io then (w, Inl WriteFailed)
             else (w\<lparr>chunk_dirs := (chunk_dirs w)(roundId := Some (d\<lparr>manifest_json := Some manifest2\<rparr>))\<rparr>,
                   Inr ()))"

definition saveChunk_js ::
  "FsOutcome \<Rightarrow> world \<Rightarrow> string \<Rightarrow> int \<Rightarrow> bytes \<Rightarrow> world \<times> (StoreError + unit)" where
  "saveChunk_js io w roundId sequence buffer =
     (let w1 = ensureChunkDirectory_js w roundId
      in if \<not> chunk_write_ok io then (w1, Inl WriteFailed)
         else
           (case chunk_dirs w1 roundId of
              None \<Rightarrow> (w1, Inl WriteFailed)
            | Some d \<Rightarrow>
                updateChunkManifest_js io
                  (w1\<lparr>chunk_dirs := (chunk_dirs w1)
                        (roundId := Some (d\<lparr>chunk_files := (chunk_files d)(sequence \<mapsto> buffer)\<rparr>))\<rparr>)
                  roundId sequence ''audio/webm''))"

definition getChunkManifest_js :: "world \<Rightarrow> string \<Rightarrow> ChunkManifest option" where
  "getChunkManifest_js w roundId =
     (case chunk_dirs w roundId of
        None \<Rightarrow> None
      | Some d \<Rightarrow> manifest_json d)"

function missing_loop_js :: "int list \<Rightarrow> int \<Rightarrow> int \<Rightarrow> int list \<Rightarrow> int list" where
  "missing_loop_js received i expectedTotal missing =
     (if i < expectedTotal then
        missing_loop_js received (i + 1) expectedTotal
          (if i \<notin> set received then missing @ [i] else missing)
      else missing)"
  by pat_completeness auto
termination
  by (relation "measure (\<lambda>(received, i, expectedTotal, missing). nat (expectedTotal - i))") auto

definition findMissingChunks_js :: "world \<Rightarrow> string \<Rightarrow> int \<Rightarrow> int list" where
  "findMissingChunks_js w roundId expectedTotal =
     (case getChunkManifest_js w roundId of
        None \<Rightarrow> map int [0 ..< nat expectedTotal]
      | Some manifest \<Rightarrow> missing_loop_js (m_receivedSequences manifest) 0 expectedTotal [])"

function read_chunks_js ::
  "(int \<rightharpoonup> bytes) \<Rightarrow> int \<Rightarrow> int \<Rightarrow> bytes list \<Rightarrow> StoreError + bytes list" where
  "read_chunks_js files i totalChunks chunks =
     (if i < totalChunks then
        (case files i of
           None \<Rightarrow> Inl (MissingChunk i)
         | Some chunkBuffer \<Rightarrow> read_chunks_js files (i + 1) totalChunks (chunks @ [chunkBuffer]))
      else Inr chunks)"
  by pat_completeness auto
termination
  by (relation "measure (\<lambda>(files, i, totalChunks, chunks). nat (totalChunks - i))") auto

definition assembleChunks_js ::
  "FsOutcome \<Rightarrow> world \<Rightarrow> string \<Rightarrow> int \<Rightarrow> string \<Rightarrow> world \<times> (StoreError + string)" where
  "assembleChunks_js io w roundId totalChunks mimeType =
     (let extension = extension_of mimeType;
          outputName = roundId @ ''.'' @ extension;
          files = (case chunk_dirs w roundId of None \<Rightarrow> Map.empty | Some d \<Rightarrow> chunk_files d)
      in case read_chunks_js files 0 totalChunks [] of
           Inl e \<Rightarrow> (w, Inl e)
         | Inr chunks \<Rightarrow>
             if \<not> artifact_write_ok io then (w, Inl WriteFailed)
             else (w\<lparr> audio_dir := (audio_dir w)(outputName \<mapsto> concat chunks),
                       chunk_dirs := (chunk_dirs w)(roundId := None) \<rparr>,
                   Inr (''/audio/'' @ outputName)))"

section \<open>Transcription trigger route (POST /api/rounds/[roundId]/transcribe)\<close>

datatype HttpResponse =
    NotFound string
  | ServerError string
  | Queued string string

text \<open>\<^verbatim>\<open>audioFileExists\<close>: the first of the four extensions for which the round has a file
  under \<^verbatim>\<open>public/audio\<close>.\<close>

definition audioFileExists :: "world \<Rightarrow> string \<Rightarrow> string option" where
  "audioFileExists w roundId =
     (case find (\<lambda>ext. audio_dir w (roundId @ ''.'' @ ext) \<noteq> None)
                [''webm'', ''mp3'', ''wav'', ''ogg''] of
        None \<Rightarrow> None
      | Some ext \<Rightarrow> Some (''/audio/'' @ roundId @ ''.'' @ ext))"

text \<open>The path without one leading slash (\<^verbatim>\<open>audioPath.replace\<close> on the anchored pattern).\<close>

definition strip_leading_slash :: "string \<Rightarrow> string" where
  "strip_leading_slash p = (case p of [] \<Rightarrow> [] | c # cs \<Rightarrow> (if c = CHR ''/'' then cs else p))"

text \<open>The route handler; \<open>cwd\<close> is \<^verbatim>\<open>process.cwd()\<close>, and \<^verbatim>\<open>path.join\<close> of already
  normalised segments is their concatenation with separators.\<close>

definition POST :: "nat \<Rightarrow> string \<Rightarrow> string \<Rightarrow> string \<Rightarrow> world \<Rightarrow> world \<times> HttpResponse" where
  "POST pid cwd uuid roundId w =
     (case getRound w roundId of
        None \<Rightarrow> (w, NotFound ''Round not found'')
      | Some round \<Rightarrow>
          (case (case r_audio_file round of
                   None \<Rightarrow> audioFileExists w roundId
                 | Some f \<Rightarrow> (if f = [] then audioFileExists w roundId else Some f)) of
             None \<Rightarrow> (w, NotFound ''Audio file not found. Recording may not have completed yet.'')
           | Some audioPath \<Rightarrow>
               (let w1 = fst (updateRound w roundId
                           (no_round_updates\<lparr>up_status := Some PROCESSING,
                                              up_audio_file := Some (Some audioPath)\<rparr>));
                    fullPath = cwd @ ''/public/'' @ strip_leading_slash audioPath
                in case enqueueTranscriptionJob pid
                          \<lparr> in_roundId = roundId, in_audioPath = fullPath, in_source = Recording \<rparr>
                          uuid w1 of
                     (w2, Inl e) \<Rightarrow>
                       (fst (updateRound w2 roundId (no_round_updates\<lparr>up_status := Some ERROR\<rparr>)),
                        ServerError (error_message e))
                   | (w2, Inr job) \<Rightarrow>
                       (case startTranscriptionWorker pid w2 of
                          (w3, calls, Inl e) \<Rightarrow>
                            (fst (updateRound w3 roundId (no_round_updates\<lparr>up_status := Some ERROR\<rparr>)),
                             ServerError (error_message e))
                        | (w3, calls, Inr u) \<Rightarrow> (w3, Queued roundId (j_id job))))))"

section \<open>Stream ingest session (WebSocket handler)\<close>

record SessionState =
  sessionId :: string
  s_roundId :: "string option"
  lastReceivedSequence :: int
  expectedSequence :: int
  totalChunksReceived :: int
  startTime :: int
  mimeType :: string
  awaitingChunkData :: bool
  pendingChunkSequence :: "int option"
  unexpectedBinaryBuffer :: "bytes option"

datatype ServerFrame =
    Ready string int
  | Ack int
  | Missing "int list"
  | ErrorFrame string string
  | Complete int string
  | Pong

text \<open>What the \<^verbatim>\<open>message\<close> event delivers: a \<^verbatim>\<open>Buffer\<close>, or a value that is not one.\<close>

datatype WsData = BufferData bytes | NotBuffer

text \<open>\<^verbatim>\<open>handleConnection\<close>: the state a connection starts with. The session id and the
  start time are what \<^verbatim>\<open>generateSessionId\<close> and \<^verbatim>\<open>Date.now\<close> give.\<close>

definition handleConnection :: "string \<Rightarrow> int \<Rightarrow> SessionState" where
  "handleConnection sid now =
     \<lparr> sessionId = sid, s_roundId = None, lastReceivedSequence = - 1, expectedSequence = 0,
       totalChunksReceived = 0, startTime = now, mimeType = ''audio/webm'',
       awaitingChunkData = False, pendingChunkSequence = None, unexpectedBinaryBuffer = None \<rparr>"

text \<open>
  \<^verbatim>\<open>handleMessage\<close> returns the world, the session state and the frames sent so far.
  A \<^verbatim>\<open>Buffer\<close> is consumed by one of the first two branches. For a value that is not a
  \<^verbatim>\<open>Buffer\<close>, \<^verbatim>\<open>isLikelyJSON\<close> returns false on its first line, so the handler answers
  \<^verbatim>\<open>INVALID_FORMAT\<close>; the parse and the dispatch written after that test are not reached
  from here, and the handlers they name are modelled as functions of their own.
  A session without a round cannot build the chunk path, which throws inside the
  \<^verbatim>\<open>try\<close> like a failed write.
\<close>

definition handleMessage ::
  "FsOutcome \<Rightarrow> WsData \<Rightarrow> world \<times> SessionState \<times> ServerFrame list \<Rightarrow>
   world \<times> SessionState \<times> ServerFrame list" where
  "handleMessage io data conn =
     (case conn of
        (w, state, sent) \<Rightarrow>
          (case data of
             BufferData buf \<Rightarrow>
               if awaitingChunkData state then
                 (case pendingChunkSequence state of
                    None \<Rightarrow> (w, state, sent)
                  | Some sequence \<Rightarrow>
                      (case (case s_roundId state of
                               None \<Rightarrow> (w, Inl WriteFailed)
                             | Some roundId \<Rightarrow> saveChunk_js io w roundId sequence buf) of
                         (w1, Inr u) \<Rightarrow>
                           (w1,
                            state\<lparr> totalChunksReceived := totalChunksReceived state + 1,
                                    lastReceivedSequence := sequence,
                                    awaitingChunkData := False,
                                    pendingChunkSequence := None \<rparr>,
                            sent @ [Ack sequence])
                       | (w1, Inl e) \<Rightarrow>
                           (w1, state,
                            sent @ [ErrorFrame ''Failed to save chunk'' ''CHUNK_SAVE_ERROR''])))
               else (w, state\<lparr>unexpectedBinaryBuffer := Some buf\<rparr>, sent)
           | NotBuffer \<Rightarrow>
               (w, state, sent @ [ErrorFrame ''Invalid message format'' ''INVALID_FORMAT''])))"

text \<open>The \<^verbatim>\<open>message\<close> events of one connection, handled in the order they arrive, each
  with what the file system does while it is handled. The listener calls
  \<^verbatim>\<open>handleMessage\<close> with the state object that \<^verbatim>\<open>handleConnection\<close> made, and nothing
  else writes to that object.\<close>

fun receive_all ::
  "(FsOutcome \<times> WsData) list \<Rightarrow> world \<times> SessionState \<times> ServerFrame list \<Rightarrow>
   world \<times> SessionState \<times> ServerFrame list" where
  "receive_all [] conn = conn"
| "receive_all ((io, data) # rest) conn = receive_all rest (handleMessage io data conn)"

text \<open>
  \<^verbatim>\<open>handleComplete\<close> returns the world, the frames sent, and the round whose
  transcription it has requested: \<^verbatim>\<open>triggerTranscription\<close> is called last and not
  awaited, and all it does is send the POST request modelled by \<open>POST\<close> above.
  The test \<^verbatim>\<open>!state.roundId\<close> holds for a missing round id and for the empty one.
\<close>

definition handleComplete ::
  "FsOutcome \<Rightarrow> int \<Rightarrow> int option \<Rightarrow> world \<times> SessionState \<times> ServerFrame list \<Rightarrow>
   world \<times> ServerFrame list \<times> string option" where
  "handleComplete io totalChunks finalDuration conn =
     (case conn of
        (w, state, sent) \<Rightarrow>
          (case s_roundId state of
             None \<Rightarrow>
               (w, sent @ [ErrorFrame ''Session not initialized'' ''NOT_INITIALIZED''], None)
           | Some roundId \<Rightarrow>
               (let missing = findMissingChunks_js w roundId totalChunks
                in if roundId = [] then
                     (w, sent @ [ErrorFrame ''Session not initialized'' ''NOT_INITIALIZED''], None)
                   else if missing \<noteq> [] then (w, sent @ [Missing missing], None)
                   else
                     (case assembleChunks_js io w roundId totalChunks (mimeType state) of
                        (w1, Inl e) \<Rightarrow>
                          (fst (updateRound w1 roundId (no_round_updates\<lparr>up_status := Some ERROR\<rparr>)),
                           sent @ [ErrorFrame ''Failed to assemble audio'' ''ASSEMBLY_FAILED''],
                           None)
                      | (w1, Inr audioPath) \<Rightarrow>
                          (fst (updateRound w1 roundId
                                  (no_round_updates\<lparr>up_status := Some PROCESSING,
                                                     up_audio_file := Some (Some audioPath),
                                                     up_duration_seconds := Some finalDuration\<rparr>)),
                           sent @ [Complete totalChunks audioPath],
                           Some roundId)))))"

section \<open>Properties and sample data\<close>

text \<open>The rounds of the jobs that are queued or processing, one entry per such job; at
  most one active job per round means that this list has no repetition.\<close>

definition active_rounds :: "TranscriptionJob list \<Rightarrow> string list" where
  "active_rounds q = map j_roundId (filter is_active q)"

definition one_active_per_round :: "TranscriptionJob list \<Rightarrow> bool" where
  "one_active_per_round q = distinct (active_rounds q)"

text \<open>Every job's attempts lie between 0 and the cap.\<close>

definition attempts_in_range :: "TranscriptionJob list \<Rightarrow> bool" where
  "attempts_in_range q = list_all (\<lambda>job. 0 \<le> j_attempts job \<and> j_attempts job \<le> MAX_ATTEMPTS) q"

text \<open>The test by which \<^verbatim>\<open>claimNextJob\<close> picks a job.\<close>

definition eligible :: "TranscriptionJob \<Rightarrow> bool" where
  "eligible job = (j_status job = JobQueued \<and> j_attempts job < MAX_ATTEMPTS)"

text \<open>The partials that \<^verbatim>\<open>processJob\<close>, the only caller of \<^verbatim>\<open>updateJob\<close>, passes: a
  terminal status and an error text, never a round or an attempts count.\<close>

definition terminal_updates :: "JobUpdates \<Rightarrow> bool" where
  "terminal_updates u =
     (ju_roundId u = None \<and> ju_attempts u = None \<and>
      (ju_status u = Some JobCompleted \<or> ju_status u = Some JobError))"

text \<open>A fresh installation: no files, the clock at one second, no worker.\<close>

definition empty_world :: world where
  "empty_world =
     \<lparr> chunk_dirs = (\<lambda>r. None), audio_dir = Map.empty, transcription_dir = {},
       rounds_file = [], queue_file = [], lock_file = None, clock = 1000,
       workerStarted = False, loop_running = False \<rparr>"

text \<open>A job keeps its round and does not become active.\<close>

definition job_shrinks :: "TranscriptionJob \<Rightarrow> TranscriptionJob \<Rightarrow> bool" where
  "job_shrinks a b = (j_roundId b = j_roundId a \<and> (is_active b \<longrightarrow> is_active a))"

text \<open>Jobs, rounds and a queue to evaluate the operations on.\<close>

definition sample_job :: "string \<Rightarrow> string \<Rightarrow> TranscriptionJobStatus \<Rightarrow> int \<Rightarrow> TranscriptionJob" where
  "sample_job jobId roundId st n =
     \<lparr> j_id = jobId, j_roundId = roundId, j_audioPath = ''/srv/public/audio/'' @ roundId @ ''.webm'',
       j_source = Recording, j_status = st, j_attempts = n, j_createdAt = 10, j_updatedAt = 20,
       j_lastError = None \<rparr>"

definition sample_round :: "string \<Rightarrow> RoundStatus \<Rightarrow> Round" where
  "sample_round roundId st =
     \<lparr> r_id = roundId, r_name = ''round'', r_description = None, r_created_at = ''2024-01-01'',
       r_status = st, r_language = None, r_audio_file = None, r_transcription_file = None,
       r_duration_seconds = None, r_speaker_count = None \<rparr>"

definition sample_world :: world where
  "sample_world =
     empty_world
       \<lparr> transcription_dir := {''R1''},
         rounds_file := [sample_round ''R1'' PROCESSING, sample_round ''R2'' PROCESSING,
                         sample_round ''R3'' PROCESSING],
         queue_file := [sample_job ''j1'' ''R1'' JobProcessing 1,
                        sample_job ''j2'' ''R2'' JobQueued 0,
                        sample_job ''j3'' ''R3'' JobProcessing 3] \<rparr>"

text \<open>A partial that leaves the attempts alone or sets them within the cap.\<close>

definition attempts_update_ok :: "JobUpdates \<Rightarrow> bool" where
  "attempts_update_ok u =
     (case ju_attempts u of None \<Rightarrow> True | Some a \<Rightarrow> 0 \<le> a \<and> a \<le> MAX_ATTEMPTS)"

text \<open>The queue has only grown, and the jobs that were at the cap have their attempts
  unchanged; a claim adds one to the attempts of the job it takes.\<close>

definition capped_untouched :: "TranscriptionJob list \<Rightarrow> TranscriptionJob list \<Rightarrow> bool" where
  "capped_untouched q0 q =
     (length q0 \<le> length q \<and>
      (\<forall>k < length q0. MAX_ATTEMPTS \<le> j_attempts (q0 ! k) \<longrightarrow>
                       j_attempts (q ! k) = j_attempts (q0 ! k)))"

text \<open>The test by which \<^verbatim>\<open>acquireLock\<close> decides to delete an existing lock file.\<close>

definition lock_expired :: "int \<Rightarrow> LockContent \<Rightarrow> bool" where
  "lock_expired now content =
     (case content of
        LockUnreadable \<Rightarrow> False
      | LockInfo holder startedAt \<Rightarrow> now - startedAt > LOCK_TTL_MS)"

text \<open>The lock held by process 99 since the given time, the clock at 700 seconds.\<close>

definition held_world :: "int \<Rightarrow> world" where
  "held_world startedAt = empty_world\<lparr>lock_file := Some (LockInfo 99 startedAt), clock := 700000\<rparr>"

text \<open>The status under which a round is visible; none when there is no such round.\<close>

definition round_status :: "world \<Rightarrow> string \<Rightarrow> RoundStatus option" where
  "round_status w roundId = map_option r_status (getRound w roundId)"

text \<open>What the body of the recovery loop assigns to one job.\<close>

definition reconcile_job :: "world \<Rightarrow> TranscriptionJob \<Rightarrow> TranscriptionJob" where
  "reconcile_job w job =
     (if j_status job \<noteq> JobProcessing then job
      else if transcriptionExists w (j_roundId job)
           then job\<lparr>j_status := JobCompleted, j_updatedAt := clock w\<rparr>
      else if j_attempts job < MAX_ATTEMPTS
           then job\<lparr>j_status := JobQueued, j_updatedAt := clock w\<rparr>
      else job\<lparr>j_status := JobError, j_updatedAt := clock w\<rparr>)"

text \<open>The worker's process state.\<close>

definition flags :: "world \<Rightarrow> bool \<times> bool" where
  "flags w = (workerStarted w, loop_running w)"




text \<open>The received set of a round's manifest; a round without a manifest has received
  nothing.\<close>

definition received_set :: "world \<Rightarrow> string \<Rightarrow> int set" where
  "received_set w roundId =
     (case getChunkManifest_ts w roundId of
        None \<Rightarrow> {}
      | Some manifest \<Rightarrow> set (m_receivedSequences manifest))"

text \<open>\<^verbatim>\<open>saveChunk\<close> called once for each chunk of a list, in the order of the list, up to
  the first call that throws.\<close>

fun save_all_ts ::
  "FsOutcome \<Rightarrow> world \<Rightarrow> string \<Rightarrow> (int \<times> bytes) list \<Rightarrow> world \<times> (StoreError + unit)" where
  "save_all_ts io w roundId [] = (w, Inr ())"
| "save_all_ts io w roundId ((sequence, buffer) # rest) =
     (case saveChunk_ts io w roundId sequence buffer of
        (w1, Inl e) \<Rightarrow> (w1, Inl e)
      | (w1, Inr u) \<Rightarrow> save_all_ts io w1 roundId rest)"

text \<open>Every write goes through.\<close>

definition all_writes_ok :: FsOutcome where
  "all_writes_ok = \<lparr> chunk_write_ok = True, manifest_write_ok = True, artifact_write_ok = True \<rparr>"

text \<open>The chunk files staged for a round; none when the round has no chunk directory.\<close>

definition staged_files :: "world \<Rightarrow> string \<Rightarrow> (int \<rightharpoonup> bytes)" where
  "staged_files w roundId =
     (case chunk_dirs w roundId of None \<Rightarrow> Map.empty | Some d \<Rightarrow> chunk_files d)"

text \<open>A store holding the chunks of round R as given, with the manifest that saving them
  leaves.\<close>

definition staged_world :: "(int \<times> bytes) list \<Rightarrow> world" where
  "staged_world chunks =
     empty_world
       \<lparr> chunk_dirs := (\<lambda>r. None)
           (''R'' := Some \<lparr> chunk_files = map_of chunks,
                            manifest_json = Some \<lparr> m_roundId = ''R'', m_mimeType = ''audio/webm'',
                              m_totalChunks = 3, m_receivedSequences = sort (map fst chunks),
                              m_startTime = 1000, m_lastUpdate = 1000 \<rparr> \<rparr>),
         rounds_file := [sample_round ''R'' STREAMING] \<rparr>"

text \<open>A session of round R that has announced chunk 0 and waits for its payload.\<close>

definition awaiting_session :: SessionState where
  "awaiting_session =
     \<lparr> sessionId = ''session_1'', s_roundId = Some ''R'', lastReceivedSequence = - 1,
       expectedSequence = 1, totalChunksReceived = 0, startTime = 1000,
       mimeType = ''audio/webm'', awaitingChunkData = True, pendingChunkSequence = Some 0,
       unexpectedBinaryBuffer = None \<rparr>"

text \<open>The write of the chunk file is refused.\<close>

definition chunk_write_fails :: FsOutcome where
  "chunk_write_fails =
     \<lparr> chunk_write_ok = False, manifest_write_ok = True, artifact_write_ok = True \<rparr>"

text \<open>The JSON text of the frames a client sends, and a store in which round R has been
  created and nothing else has happened.\<close>

definition quoted :: "string \<Rightarrow> string" where
  "quoted s = CHR 0x22 # s @ [CHR 0x22]"

definition init_frame :: "string \<Rightarrow> bytes" where
  "init_frame roundId =
     ''{'' @ quoted ''type'' @ '':'' @ quoted ''init'' @ '','' @
     quoted ''roundId'' @ '':'' @ quoted roundId @ '','' @
     quoted ''mimeType'' @ '':'' @ quoted ''audio/webm'' @ ''}''"

definition chunk_frame :: "string \<Rightarrow> bytes" where
  "chunk_frame sequence =
     ''{'' @ quoted ''type'' @ '':'' @ quoted ''chunk'' @ '','' @
     quoted ''sequence'' @ '':'' @ sequence @ ''}''"

definition complete_frame :: "string \<Rightarrow> bytes" where
  "complete_frame totalChunks =
     ''{'' @ quoted ''type'' @ '':'' @ quoted ''complete'' @ '','' @
     quoted ''totalChunks'' @ '':'' @ totalChunks @ ''}''"

definition round_world :: world where
  "round_world = empty_world\<lparr>rounds_file := [sample_round ''R'' CREATED]\<rparr>"

section \<open>The lock: closed form and case analysis\<close>

declare acquireLock.simps [simp del]
declare withLock_loop.simps [simp del]

lemma acquireLock_closed:
  "acquireLock pid w =
     (case lock_file w of
        None \<Rightarrow> (w\<lparr>lock_file := Some (LockInfo pid (clock w))\<rparr>, True)
      | Some content \<Rightarrow>
          (case content of
             LockUnreadable \<Rightarrow> (w, False)
           | LockInfo holder startedAt \<Rightarrow>
               if clock w - startedAt > LOCK_TTL_MS
               then (w\<lparr>lock_file := Some (LockInfo pid (clock w))\<rparr>, True)
               else (w, False)))"
  by (subst acquireLock.simps, subst acquireLock.simps)
     (simp split: option.splits LockContent.splits)

lemma acquireLock_False: "acquireLock pid w = (w', False) \<Longrightarrow> w' = w"
  by (auto simp: acquireLock_closed split: option.splits LockContent.splits if_splits)

lemma acquireLock_True:
  "acquireLock pid w = (w', True) \<Longrightarrow> w' = w\<lparr>lock_file := Some (LockInfo pid (clock w))\<rparr>"
  by (auto simp: acquireLock_closed split: option.splits LockContent.splits if_splits)

lemma withLock_loop_cases:
  "withLock_loop pid fn attempt w = (w', r) \<Longrightarrow>
     (r = Inl QueueLockTimeout \<and> (\<exists>c. w' = w\<lparr>clock := c\<rparr>)) \<or>
     (\<exists>c w2. fn (w\<lparr>clock := c, lock_file := Some (LockInfo pid c)\<rparr>) = (w2, r) \<and> w' = releaseLock w2)"
proof (induction pid fn attempt w rule: withLock_loop.induct)
  case (1 pid fn attempt w)
  show ?case
  proof (cases "attempt < maxRetries")
    case False
    with "1.prems" have "w' = w" "r = Inl QueueLockTimeout"
      by (simp_all add: withLock_loop.simps[of pid fn attempt w])
    then show ?thesis by (metis world.surjective world.update_convs(7))
  next
    case True
    obtain w1 got where acq: "acquireLock pid w = (w1, got)" by (cases "acquireLock pid w")
    show ?thesis
    proof (cases got)
      case False
      with acq have w1: "w1 = w" by (simp add: acquireLock_False)
      from "1.prems" True acq False
      have "withLock_loop pid fn (attempt + 1) (sleep retryDelayMs w1) = (w', r)"
        by (simp add: withLock_loop.simps[of pid fn attempt w])
      from "1.IH"[OF True acq[symmetric] _ this] False
      show ?thesis unfolding w1 sleep_def by auto
    next
      case True': True
      with acq have w1: "w1 = w\<lparr>lock_file := Some (LockInfo pid (clock w))\<rparr>"
        by (simp add: acquireLock_True)
      obtain w2 r2 where f: "fn w1 = (w2, r2)" by (cases "fn w1")
      from "1.prems" True acq True' f have "w' = releaseLock w2" "r = r2"
        by (simp_all add: withLock_loop.simps[of pid fn attempt w])
      moreover have "w\<lparr>clock := clock w, lock_file := Some (LockInfo pid (clock w))\<rparr> = w1"
        by (simp add: w1)
      ultimately show ?thesis using f by metis
    qed
  qed
qed

lemma withLock_cases:
  assumes "withLock pid fn w = (w', r)"
  obtains (timeout) c where "r = Inl QueueLockTimeout" "w' = w\<lparr>clock := c\<rparr>"
  | (ran) c w2 where "fn (w\<lparr>clock := c, lock_file := Some (LockInfo pid c)\<rparr>) = (w2, r)"
      "w' = releaseLock w2"
  using withLock_loop_cases[OF assms[unfolded withLock_def]] by blast

lemma withLock_free:
  assumes "lock_file w = None"
  shows "withLock pid fn w =
     (case fn (w\<lparr>lock_file := Some (LockInfo pid (clock w))\<rparr>) of (w2, r) \<Rightarrow> (releaseLock w2, r))"
  using assms
  by (simp add: withLock_def withLock_loop.simps[of pid fn 0 w] maxRetries_def acquireLock_closed)

text \<open>A property of the queue file that the critical section preserves is preserved by
  the whole locked call.\<close>

lemma withLock_queue_preserved:
  assumes "\<And>w1. P (queue_file w1) \<Longrightarrow> P (queue_file (fst (fn w1)))"
    and "P (queue_file w)"
  shows "P (queue_file (fst (withLock pid fn w)))"
proof -
  obtain w' r where res: "withLock pid fn w = (w', r)" by (cases "withLock pid fn w")
  from res show ?thesis
  proof (cases rule: withLock_cases)
    case (timeout c)
    with res assms(2) show ?thesis by simp
  next
    case (ran c w2)
    have "P (queue_file (w\<lparr>clock := c, lock_file := Some (LockInfo pid c)\<rparr>))"
      using assms(2) by simp
    from assms(1)[OF this] ran res show ?thesis by (simp add: releaseLock_def)
  qed
qed

lemma findIndex_from_Some:
  "findIndex_from k P xs = Some n \<Longrightarrow>
     k \<le> n \<and> n - k < length xs \<and> P (xs ! (n - k)) \<and> (\<forall>m < n - k. \<not> P (xs ! m))"
proof (induction xs arbitrary: k)
  case Nil
  then show ?case by simp
next
  case (Cons x xs)
  show ?case
  proof (cases "P x")
    case True
    with Cons.prems show ?thesis by simp
  next
    case False
    with Cons.prems have "findIndex_from (Suc k) P xs = Some n" by simp
    from Cons.IH[OF this] have ih: "Suc k \<le> n" "n - Suc k < length xs" "P (xs ! (n - Suc k))"
      "\<forall>m < n - Suc k. \<not> P (xs ! m)" by auto
    have eq: "n - k = Suc (n - Suc k)" using ih(1) by arith
    show ?thesis unfolding eq using ih False
      by (auto simp: nth_Cons split: nat.splits)
  qed
qed

lemma findIndex_Some:
  "findIndex P xs = Some n \<Longrightarrow> n < length xs \<and> P (xs ! n) \<and> (\<forall>m < n. \<not> P (xs ! m))"
  using findIndex_from_Some[of 0 P xs n] by (simp add: findIndex_def)

lemma findIndex_from_None: "findIndex_from k P xs = None \<longleftrightarrow> (\<forall>x \<in> set xs. \<not> P x)"
  by (induction xs arbitrary: k) auto

lemma findIndex_None: "findIndex P xs = None \<longleftrightarrow> (\<forall>x \<in> set xs. \<not> P x)"
  by (simp add: findIndex_def findIndex_from_None)

section \<open>At most one active job per round\<close>

lemma job_shrinks_refl: "job_shrinks a a"
  by (simp add: job_shrinks_def)

lemma list_all2_job_shrinks_refl: "list_all2 job_shrinks q q"
  by (simp add: list_all2_refl job_shrinks_refl)

lemma shrinks_active_subset:
  "list_all2 job_shrinks q q' \<Longrightarrow> set (active_rounds q') \<subseteq> set (active_rounds q)"
  by (induction rule: list_all2_induct) (auto simp: active_rounds_def job_shrinks_def)

lemma shrinks_distinct:
  "list_all2 job_shrinks q q' \<Longrightarrow> distinct (active_rounds q) \<Longrightarrow> distinct (active_rounds q')"
proof (induction rule: list_all2_induct)
  case Nil
  then show ?case by simp
next
  case (Cons a q b q')
  from shrinks_active_subset[OF Cons.hyps(2)]
  have sub: "set (active_rounds q') \<subseteq> set (active_rounds q)" .
  show ?case
  proof (cases "is_active b")
    case True
    with Cons.hyps(1) have a: "is_active a" "j_roundId b = j_roundId a"
      by (simp_all add: job_shrinks_def)
    with Cons.prems have "j_roundId a \<notin> set (active_rounds q)" "distinct (active_rounds q)"
      by (simp_all add: active_rounds_def)
    with Cons.IH sub a True show ?thesis by (auto simp: active_rounds_def)
  next
    case False
    have "distinct (active_rounds q)" using Cons.prems
      by (cases "is_active a") (simp_all add: active_rounds_def)
    with Cons.IH False show ?thesis by (simp add: active_rounds_def)
  qed
qed

lemma shrinks_update:
  "i < length q \<Longrightarrow> job_shrinks (q ! i) x \<Longrightarrow> list_all2 job_shrinks q (q[i := x])"
  using list_all2_update_cong[OF list_all2_job_shrinks_refl[of q], of "q ! i" x i]
  by simp

lemma shrinks_preserves:
  "list_all2 job_shrinks q q' \<Longrightarrow> one_active_per_round q \<Longrightarrow> one_active_per_round q'"
  by (simp add: one_active_per_round_def shrinks_distinct)

subsection \<open>The critical sections and the queue file\<close>

lemma find_active_None:
  "find (\<lambda>job. j_roundId job = r \<and> (j_status job = JobQueued \<or> j_status job = JobProcessing)) q = None
   \<Longrightarrow> r \<notin> set (active_rounds q)"
  by (auto simp: find_None_iff active_rounds_def is_active_def)

lemma enqueue_locked_invariant:
  "one_active_per_round (queue_file w) \<Longrightarrow>
   one_active_per_round (queue_file (fst (enqueue_locked input uuid w)))"
  by (auto simp: enqueue_locked_def Let_def one_active_per_round_def active_rounds_def
        is_active_def find_None_iff split: option.splits)

lemma claim_locked_shrinks:
  "list_all2 job_shrinks (queue_file w) (queue_file (fst (claim_locked w)))"
proof (cases "findIndex (\<lambda>job. j_status job = JobQueued \<and> j_attempts job < MAX_ATTEMPTS) (queue_file w)")
  case None
  then show ?thesis by (simp add: claim_locked_def list_all2_job_shrinks_refl)
next
  case (Some i)
  from findIndex_Some[OF Some] have i: "i < length (queue_file w)"
    and st: "j_status (queue_file w ! i) = JobQueued" by auto
  show ?thesis using Some
    by (auto simp: claim_locked_def Let_def job_shrinks_def is_active_def st
          intro!: shrinks_update[OF i])
qed

lemma update_locked_shrinks:
  assumes "terminal_updates u"
  shows "list_all2 job_shrinks (queue_file w) (queue_file (fst (update_locked jobId u w)))"
proof (cases "findIndex (\<lambda>job. j_id job = jobId) (queue_file w)")
  case None
  then show ?thesis by (simp add: update_locked_def list_all2_job_shrinks_refl)
next
  case (Some i)
  from findIndex_Some[OF Some] have i: "i < length (queue_file w)" by auto
  show ?thesis using Some assms
    by (auto simp: update_locked_def Let_def job_shrinks_def is_active_def merge_job_def
          terminal_updates_def apply_opt_def
          intro!: shrinks_update[OF i])
qed

lemma updateRound_other_fields:
  "queue_file (fst (updateRound w r u)) = queue_file w"
  "transcription_dir (fst (updateRound w r u)) = transcription_dir w"
  "clock (fst (updateRound w r u)) = clock w"
  "lock_file (fst (updateRound w r u)) = lock_file w"
  "workerStarted (fst (updateRound w r u)) = workerStarted w"
  "loop_running (fst (updateRound w r u)) = loop_running w"
  "chunk_dirs (fst (updateRound w r u)) = chunk_dirs w"
  "audio_dir (fst (updateRound w r u)) = audio_dir w"
  by (simp_all add: updateRound_def Let_def split: option.splits)

lemma recover_jobs_Cons_cases:
  assumes "recover_jobs (job # rest) w u = (js, w', u')"
  obtains js0 wm um jn where "recover_jobs rest wm um = (js0, w', u')" "js = jn # js0"
    "(j_status job \<noteq> JobProcessing \<and> jn = job \<and> wm = w \<and> um = u) \<or>
     (j_status job = JobProcessing \<and> transcriptionExists w (j_roundId job) \<and>
        jn = job\<lparr>j_status := JobCompleted, j_updatedAt := clock w\<rparr> \<and>
        wm = fst (updateRound w (j_roundId job) (no_round_updates\<lparr>up_status := Some COMPLETED\<rparr>)) \<and> um) \<or>
     (j_status job = JobProcessing \<and> \<not> transcriptionExists w (j_roundId job) \<and>
        j_attempts job < MAX_ATTEMPTS \<and>
        jn = job\<lparr>j_status := JobQueued, j_updatedAt := clock w\<rparr> \<and> wm = w \<and> um) \<or>
     (j_status job = JobProcessing \<and> \<not> transcriptionExists w (j_roundId job) \<and>
        \<not> j_attempts job < MAX_ATTEMPTS \<and>
        jn = job\<lparr>j_status := JobError, j_updatedAt := clock w\<rparr> \<and>
        wm = fst (updateRound w (j_roundId job) (no_round_updates\<lparr>up_status := Some ERROR\<rparr>)) \<and> um)"
proof (cases "j_status job \<noteq> JobProcessing")
  case True
  obtain js0 w0 u0 where r: "recover_jobs rest w u = (js0, w0, u0)"
    by (cases "recover_jobs rest w u") auto
  with assms True have "js = job # js0" "w0 = w'" "u0 = u'" by simp_all
  with r True that show ?thesis by blast
next
  case proc: False
  show ?thesis
  proof (cases "transcriptionExists w (j_roundId job)")
    case True
    let ?wm = "fst (updateRound w (j_roundId job) (no_round_updates\<lparr>up_status := Some COMPLETED\<rparr>))"
    obtain js0 w0 u0 where r: "recover_jobs rest ?wm True = (js0, w0, u0)"
      by (cases "recover_jobs rest ?wm True") auto
    with assms True proc
    have "js = job\<lparr>j_status := JobCompleted, j_updatedAt := clock w\<rparr> # js0" "w0 = w'" "u0 = u'"
      by simp_all
    with r True proc that show ?thesis by blast
  next
    case notx: False
    show ?thesis
    proof (cases "j_attempts job < MAX_ATTEMPTS")
      case True
      obtain js0 w0 u0 where r: "recover_jobs rest w True = (js0, w0, u0)"
        by (cases "recover_jobs rest w True") auto
      with assms True proc notx
      have "js = job\<lparr>j_status := JobQueued, j_updatedAt := clock w\<rparr> # js0" "w0 = w'" "u0 = u'"
        by simp_all
      with r True proc notx that show ?thesis by blast
    next
      case False
      let ?wm = "fst (updateRound w (j_roundId job) (no_round_updates\<lparr>up_status := Some ERROR\<rparr>))"
      obtain js0 w0 u0 where r: "recover_jobs rest ?wm True = (js0, w0, u0)"
        by (cases "recover_jobs rest ?wm True") auto
      with assms False proc notx
      have "js = job\<lparr>j_status := JobError, j_updatedAt := clock w\<rparr> # js0" "w0 = w'" "u0 = u'"
        by simp_all
      with r False proc notx that show ?thesis by blast
    qed
  qed
qed

lemma recover_jobs_world:
  "recover_jobs q w u = (js, w', u') \<Longrightarrow>
     queue_file w' = queue_file w \<and> transcription_dir w' = transcription_dir w \<and>
     clock w' = clock w \<and> lock_file w' = lock_file w \<and>
     workerStarted w' = workerStarted w \<and> loop_running w' = loop_running w \<and>
     chunk_dirs w' = chunk_dirs w \<and> audio_dir w' = audio_dir w"
proof (induction q arbitrary: w u js)
  case Nil
  then show ?case by simp
next
  case (Cons job rest)
  from Cons.prems show ?case
  proof (cases rule: recover_jobs_Cons_cases)
    case (1 js0 wm um jn)
    from 1(3) have "queue_file wm = queue_file w \<and> transcription_dir wm = transcription_dir w \<and>
        clock wm = clock w \<and> lock_file wm = lock_file w \<and>
        workerStarted wm = workerStarted w \<and> loop_running wm = loop_running w \<and>
        chunk_dirs wm = chunk_dirs w \<and> audio_dir wm = audio_dir w"
      by (elim disjE conjE) (simp_all add: updateRound_other_fields)
    with Cons.IH[OF 1(1)] show ?thesis by simp
  qed
qed

lemma recover_jobs_shrinks:
  "recover_jobs q w u = (js, w', u') \<Longrightarrow> list_all2 job_shrinks q js"
proof (induction q arbitrary: w u js)
  case Nil
  then show ?case by simp
next
  case (Cons job rest)
  from Cons.prems show ?case
  proof (cases rule: recover_jobs_Cons_cases)
    case (1 js0 wm um jn)
    from 1(3) have "job_shrinks job jn"
      by (elim disjE conjE) (simp_all add: job_shrinks_def is_active_def)
    with Cons.IH[OF 1(1)] 1(2) show ?thesis by simp
  qed
qed

lemma recover_jobs_flag_mono:
  "recover_jobs q w u = (js, w', u') \<Longrightarrow> u \<Longrightarrow> u'"
proof (induction q arbitrary: w u js)
  case Nil
  then show ?case by simp
next
  case (Cons job rest)
  from Cons.prems(1) show ?case
  proof (cases rule: recover_jobs_Cons_cases)
    case (1 js0 wm um jn)
    from 1(3) Cons.prems(2) have um by blast
    with Cons.IH[OF 1(1)] show ?thesis by simp
  qed
qed

lemma recover_jobs_not_updated:
  "recover_jobs q w u = (js, w', u') \<Longrightarrow> \<not> u' \<Longrightarrow> js = q"
proof (induction q arbitrary: w u js)
  case Nil
  then show ?case by simp
next
  case (Cons job rest)
  from Cons.prems(1) show ?case
  proof (cases rule: recover_jobs_Cons_cases)
    case (1 js0 wm um jn)
    from recover_jobs_flag_mono[OF 1(1)] Cons.prems(2) have "\<not> um" by blast
    with 1(3) have "jn = job" by blast
    with Cons.IH[OF 1(1) Cons.prems(2)] 1(2) show ?thesis by simp
  qed
qed

lemma recover_locked_queue:
  "queue_file (fst (recover_locked w)) = fst (recover_jobs (queue_file w) w False)"
proof -
  obtain js w' u' where r: "recover_jobs (queue_file w) w False = (js, w', u')"
    by (cases "recover_jobs (queue_file w) w False") auto
  show ?thesis
  proof (cases u')
    case True
    with r show ?thesis by (simp add: recover_locked_def)
  next
    case False
    with r recover_jobs_not_updated[OF r] recover_jobs_world[OF r]
    show ?thesis by (simp add: recover_locked_def)
  qed
qed

lemma recover_locked_shrinks:
  "list_all2 job_shrinks (queue_file w) (queue_file (fst (recover_locked w)))"
proof -
  obtain js w' u' where r: "recover_jobs (queue_file w) w False = (js, w', u')"
    by (cases "recover_jobs (queue_file w) w False") auto
  from recover_jobs_shrinks[OF r] r show ?thesis by (simp add: recover_locked_queue)
qed

lemma enqueue_invariant:
  "one_active_per_round (queue_file w) \<Longrightarrow>
   one_active_per_round (queue_file (fst (enqueueTranscriptionJob pid input uuid w)))"
  unfolding enqueueTranscriptionJob_def
  by (rule withLock_queue_preserved[where P = one_active_per_round])
     (simp_all add: enqueue_locked_invariant)

lemma claim_invariant:
  "one_active_per_round (queue_file w) \<Longrightarrow>
   one_active_per_round (queue_file (fst (claimNextJob pid w)))"
  unfolding claimNextJob_def
  by (rule withLock_queue_preserved[where P = one_active_per_round])
     (auto intro: shrinks_preserves[OF claim_locked_shrinks])

lemma recover_invariant:
  "one_active_per_round (queue_file w) \<Longrightarrow>
   one_active_per_round (queue_file (fst (recoverQueue pid w)))"
  unfolding recoverQueue_def
  by (rule withLock_queue_preserved[where P = one_active_per_round])
     (auto intro: shrinks_preserves[OF recover_locked_shrinks])

lemma update_invariant:
  "terminal_updates u \<Longrightarrow> one_active_per_round (queue_file w) \<Longrightarrow>
   one_active_per_round (queue_file (fst (updateJob pid jobId u w)))"
  unfolding updateJob_def
  by (rule withLock_queue_preserved[where P = one_active_per_round])
     (auto intro: shrinks_preserves[OF update_locked_shrinks])

section \<open>Job processing and the worker preserve what the queue calls preserve\<close>

lemma terminal_updates_used [simp]:
  "terminal_updates (no_job_updates\<lparr>ju_status := Some JobError, ju_lastError := e\<rparr>)"
  "terminal_updates (no_job_updates\<lparr>ju_status := Some JobCompleted, ju_lastError := e\<rparr>)"
  by (simp_all add: terminal_updates_def no_job_updates_def)

lemma processJob_catch_queue_preserved:
  assumes upd: "\<And>w u jobId. terminal_updates u \<Longrightarrow> P (queue_file w) \<Longrightarrow>
                  P (queue_file (fst (updateJob pid jobId u w)))"
    and "P (queue_file w)"
  shows "P (queue_file (fst (processJob_catch pid message job w)))"
proof -
  let ?w1 = "fst (updateRound w (j_roundId job) (no_round_updates\<lparr>up_status := Some ERROR\<rparr>))"
  let ?u = "no_job_updates\<lparr>ju_status := Some JobError, ju_lastError := Some (Some message)\<rparr>"
  have "P (queue_file ?w1)" using assms(2) by (simp add: updateRound_other_fields)
  from upd[OF _ this, of ?u "j_id job"]
  have "P (queue_file (fst (updateJob pid (j_id job) ?u ?w1)))" by simp
  then show ?thesis
    by (auto simp: processJob_catch_def Let_def split: prod.splits sum.splits)
qed

lemma processJob_queue_preserved:
  assumes upd: "\<And>w u jobId. terminal_updates u \<Longrightarrow> P (queue_file w) \<Longrightarrow>
                  P (queue_file (fst (updateJob pid jobId u w)))"
    and "P (queue_file w)"
  shows "P (queue_file (fst (processJob pid outcome job w)))"
proof (cases "getRound w (j_roundId job)")
  case None
  let ?u = "no_job_updates\<lparr>ju_status := Some JobError, ju_lastError := Some (Some ''Round not found'')\<rparr>"
  from upd[OF _ assms(2), of ?u "j_id job"]
  have "P (queue_file (fst (updateJob pid (j_id job) ?u w)))" by simp
  with None show ?thesis
    by (auto simp: processJob_def split: prod.splits sum.splits)
next
  case (Some round)
  show ?thesis
  proof (cases outcome)
    case (EngineFailure message)
    with Some processJob_catch_queue_preserved[of P pid w message job, OF upd assms(2)]
    show ?thesis by (simp add: processJob_def)
  next
    case (Transcribed duration speakers)
    let ?w1 = "saveTranscription w (j_roundId job)"
    let ?w2 = "fst (updateRound ?w1 (j_roundId job)
                 (no_round_updates\<lparr>up_status := Some COMPLETED,
                    up_transcription_file := Some (Some (j_roundId job @ ''_deliberation.json'')),
                    up_duration_seconds := Some (Some duration),
                    up_speaker_count := Some (Some speakers)\<rparr>))"
    let ?u = "no_job_updates\<lparr>ju_status := Some JobCompleted, ju_lastError := Some None\<rparr>"
    have p2: "P (queue_file ?w2)"
      using assms(2) by (simp add: updateRound_other_fields saveTranscription_def)
    obtain w3 r where r: "updateJob pid (j_id job) ?u ?w2 = (w3, r)"
      by (cases "updateJob pid (j_id job) ?u ?w2")
    from upd[OF _ p2, of ?u "j_id job"] r have p3: "P (queue_file w3)" by simp
    show ?thesis
    proof (cases r)
      case (Inl e)
      from processJob_catch_queue_preserved[of P pid w3 "error_message e" job, OF upd p3]
      show ?thesis using Some Transcribed r Inl by (simp add: processJob_def Let_def)
    next
      case (Inr u)
      with p3 Some Transcribed r show ?thesis by (simp add: processJob_def Let_def)
    qed
  qed
qed

lemma worker_iteration_queue_preserved:
  assumes clm: "\<And>w. P (queue_file w) \<Longrightarrow> P (queue_file (fst (claimNextJob pid w)))"
    and upd: "\<And>w u jobId. terminal_updates u \<Longrightarrow> P (queue_file w) \<Longrightarrow>
                  P (queue_file (fst (updateJob pid jobId u w)))"
    and "P (queue_file w)"
  shows "P (queue_file (fst (worker_iteration pid outcome w)))"
proof -
  obtain w1 r where c: "claimNextJob pid w = (w1, r)" by (cases "claimNextJob pid w")
  from clm[OF assms(3)] c have p1: "P (queue_file w1)" by simp
  show ?thesis
  proof (cases r)
    case (Inl e)
    with c p1 show ?thesis by (simp add: worker_iteration_def sleep_def)
  next
    case (Inr res)
    show ?thesis
    proof (cases res)
      case None
      with c p1 Inr show ?thesis by (simp add: worker_iteration_def sleep_def)
    next
      case (Some job)
      from processJob_queue_preserved[of P pid w1 outcome job, OF upd p1]
      show ?thesis using c Inr Some
        by (auto simp: worker_iteration_def sleep_def split: prod.splits sum.splits)
    qed
  qed
qed

lemma start_queue_preserved:
  assumes rec: "\<And>w. P (queue_file w) \<Longrightarrow> P (queue_file (fst (recoverQueue pid w)))"
    and "P (queue_file w)"
  shows "P (queue_file (fst (startTranscriptionWorker pid w)))"
proof -
  have "P (queue_file (w\<lparr>workerStarted := True\<rparr>))" using assms(2) by simp
  from rec[OF this] assms(2) show ?thesis
    by (auto simp: startTranscriptionWorker_def split: prod.splits sum.splits)
qed

lemma run_queue_preserved:
  assumes enq: "\<And>w input uuid. P (queue_file w) \<Longrightarrow>
                  P (queue_file (fst (enqueueTranscriptionJob pid input uuid w)))"
    and clm: "\<And>w. P (queue_file w) \<Longrightarrow> P (queue_file (fst (claimNextJob pid w)))"
    and rec: "\<And>w. P (queue_file w) \<Longrightarrow> P (queue_file (fst (recoverQueue pid w)))"
    and upd: "\<And>w u jobId. terminal_updates u \<Longrightarrow> P (queue_file w) \<Longrightarrow>
                  P (queue_file (fst (updateJob pid jobId u w)))"
  shows "P (queue_file w) \<Longrightarrow> P (queue_file (fst (run pid acts w)))"
proof (induction acts arbitrary: w)
  case Nil
  then show ?case by simp
next
  case (Cons a rest)
  have "P (queue_file (fst (step pid a w)))"
  proof (cases a)
    case AStart
    from start_queue_preserved[of P pid w, OF rec Cons.prems]
    show ?thesis using AStart by (auto split: prod.splits)
  next
    case (AIterate outcome)
    from worker_iteration_queue_preserved[of P pid w outcome, OF clm upd Cons.prems] Cons.prems
    show ?thesis using AIterate by simp
  next
    case (AEnqueue input uuid)
    with enq[OF Cons.prems] show ?thesis by simp
  qed
  from Cons.IH[OF this] show ?case by (auto split: prod.splits)
qed

section \<open>Enqueue\<close>

lemma enqueue_locked_result:
  "enqueue_locked input uuid w = (w', r) \<Longrightarrow>
     (case find (\<lambda>j. j_roundId j = in_roundId input \<and> is_active j) (queue_file w) of
        Some existing \<Rightarrow> r = Inr existing \<and> w' = w
      | None \<Rightarrow>
          (\<exists>job. r = Inr job \<and> w' = w\<lparr>queue_file := queue_file w @ [job]\<rparr> \<and>
             j_status job = JobQueued \<and> j_attempts job = 0 \<and>
             j_roundId job = in_roundId input \<and> j_audioPath job = in_audioPath input \<and>
             j_source job = in_source input \<and> j_id job = uuid \<and> j_createdAt job = clock w))"
  by (auto simp: enqueue_locked_def is_active_def Let_def split: option.splits)

text \<open>
  C2. For every queue and every round: when a job of that round is queued or processing,
  \<^verbatim>\<open>enqueueTranscriptionJob\<close> returns that job and leaves the queue file as it is;
  otherwise it appends exactly one job, queued, with zero attempts. The call returns a job
  whenever the lock is free, and fails only with the lock timeout, the queue untouched.
  Enqueueing, claiming, recovery, the updates that job processing makes, job processing
  itself and every run of the server process keep at most one active job per round.
\<close>

theorem enqueue_idempotent_one_active:
  "(case enqueueTranscriptionJob pid input uuid w of
      (w', Inl e) \<Rightarrow> e = QueueLockTimeout \<and> queue_file w' = queue_file w
    | (w', Inr job) \<Rightarrow>
        (case find (\<lambda>j. j_roundId j = in_roundId input \<and> is_active j) (queue_file w) of
           Some existing \<Rightarrow> job = existing \<and> queue_file w' = queue_file w
         | None \<Rightarrow>
             queue_file w' = queue_file w @ [job] \<and>
             j_status job = JobQueued \<and> j_attempts job = 0 \<and>
             j_roundId job = in_roundId input \<and> j_audioPath job = in_audioPath input \<and>
             j_source job = in_source input \<and> j_id job = uuid)) \<and>
   (lock_file w = None \<longrightarrow> (\<exists>job. snd (enqueueTranscriptionJob pid input uuid w) = Inr job)) \<and>
   (one_active_per_round (queue_file w) \<longrightarrow>
      one_active_per_round (queue_file (fst (enqueueTranscriptionJob pid input uuid w))) \<and>
      one_active_per_round (queue_file (fst (claimNextJob pid w))) \<and>
      one_active_per_round (queue_file (fst (recoverQueue pid w))) \<and>
      (terminal_updates u \<longrightarrow> one_active_per_round (queue_file (fst (updateJob pid jobId u w)))) \<and>
      one_active_per_round (queue_file (fst (processJob pid outcome job0 w))) \<and>
      one_active_per_round (queue_file (fst (run pid acts w))))"
proof (intro conjI impI)
  obtain w' r where res: "enqueueTranscriptionJob pid input uuid w = (w', r)"
    by (cases "enqueueTranscriptionJob pid input uuid w")
  from res[unfolded enqueueTranscriptionJob_def]
  have "case r of
          Inl e \<Rightarrow> e = QueueLockTimeout \<and> queue_file w' = queue_file w
        | Inr job \<Rightarrow>
            (case find (\<lambda>j. j_roundId j = in_roundId input \<and> is_active j) (queue_file w) of
               Some existing \<Rightarrow> job = existing \<and> queue_file w' = queue_file w
             | None \<Rightarrow>
                 queue_file w' = queue_file w @ [job] \<and>
                 j_status job = JobQueued \<and> j_attempts job = 0 \<and>
                 j_roundId job = in_roundId input \<and> j_audioPath job = in_audioPath input \<and>
                 j_source job = in_source input \<and> j_id job = uuid)"
  proof (cases rule: withLock_cases)
    case (timeout c)
    then show ?thesis by simp
  next
    case (ran c w2)
    from enqueue_locked_result[OF ran(1)] ran(2) show ?thesis
      by (auto simp: releaseLock_def split: option.splits)
  qed
  with res show "case enqueueTranscriptionJob pid input uuid w of
      (w', Inl e) \<Rightarrow> e = QueueLockTimeout \<and> queue_file w' = queue_file w
    | (w', Inr job) \<Rightarrow>
        (case find (\<lambda>j. j_roundId j = in_roundId input \<and> is_active j) (queue_file w) of
           Some existing \<Rightarrow> job = existing \<and> queue_file w' = queue_file w
         | None \<Rightarrow>
             queue_file w' = queue_file w @ [job] \<and>
             j_status job = JobQueued \<and> j_attempts job = 0 \<and>
             j_roundId job = in_roundId input \<and> j_audioPath job = in_audioPath input \<and>
             j_source job = in_source input \<and> j_id job = uuid)"
    by (simp split: sum.splits)
next
  assume "lock_file w = None"
  then show "\<exists>job. snd (enqueueTranscriptionJob pid input uuid w) = Inr job"
    by (auto simp: enqueueTranscriptionJob_def withLock_free enqueue_locked_def Let_def
          split: prod.splits option.splits)
next
  assume inv: "one_active_per_round (queue_file w)"
  show "one_active_per_round (queue_file (fst (enqueueTranscriptionJob pid input uuid w)))"
    by (rule enqueue_invariant[OF inv])
  show "one_active_per_round (queue_file (fst (claimNextJob pid w)))"
    by (rule claim_invariant[OF inv])
  show "one_active_per_round (queue_file (fst (recoverQueue pid w)))"
    by (rule recover_invariant[OF inv])
  show "one_active_per_round (queue_file (fst (updateJob pid jobId u w)))" if "terminal_updates u"
    by (rule update_invariant[OF that inv])
  show "one_active_per_round (queue_file (fst (processJob pid outcome job0 w)))"
    by (rule processJob_queue_preserved[where P = one_active_per_round, OF update_invariant inv])
  show "one_active_per_round (queue_file (fst (run pid acts w)))"
    by (rule run_queue_preserved[where P = one_active_per_round,
          OF enqueue_invariant claim_invariant recover_invariant update_invariant inv])
qed

text \<open>The statement at a queue with an active job for round R2: the second enqueue for
  R2 returns the queued job and writes nothing.\<close>

theorem enqueue_idempotent_one_active_witness:
  "lock_file sample_world = None \<and>
   one_active_per_round (queue_file sample_world) \<and>
   terminal_updates (no_job_updates\<lparr>ju_status := Some JobError\<rparr>) \<and>
   snd (enqueueTranscriptionJob 7
          \<lparr>in_roundId = ''R2'', in_audioPath = ''/srv/public/audio/R2.webm'', in_source = Recording\<rparr>
          ''j4'' sample_world) = Inr (sample_job ''j2'' ''R2'' JobQueued 0) \<and>
   queue_file (fst (enqueueTranscriptionJob 7
          \<lparr>in_roundId = ''R2'', in_audioPath = ''/srv/public/audio/R2.webm'', in_source = Recording\<rparr>
          ''j4'' sample_world)) = queue_file sample_world \<and>
   one_active_per_round (queue_file (fst (updateJob 7 ''j2''
          (no_job_updates\<lparr>ju_status := Some JobError\<rparr>) sample_world))) \<and>
   one_active_per_round (queue_file (fst (run 7 [AStart, AIterate (EngineFailure ''boom'')] sample_world)))"
proof -
  let ?inp = "\<lparr>in_roundId = ''R2'', in_audioPath = ''/srv/public/audio/R2.webm'', in_source = Recording\<rparr>"
  have l: "lock_file sample_world = None"
    by (simp add: sample_world_def empty_world_def)
  have i: "one_active_per_round (queue_file sample_world)"
    by (simp add: sample_world_def empty_world_def one_active_per_round_def active_rounds_def
          is_active_def sample_job_def)
  have t: "terminal_updates (no_job_updates\<lparr>ju_status := Some JobError\<rparr>)"
    by (simp add: terminal_updates_def no_job_updates_def)
  have f: "find (\<lambda>j. j_roundId j = in_roundId ?inp \<and> is_active j) (queue_file sample_world)
             = Some (sample_job ''j2'' ''R2'' JobQueued 0)"
    by (simp add: sample_world_def empty_world_def is_active_def sample_job_def)
  obtain w' r where res: "enqueueTranscriptionJob 7 ?inp ''j4'' sample_world = (w', r)"
    by (cases "enqueueTranscriptionJob 7 ?inp ''j4'' sample_world")
  from enqueue_idempotent_one_active[where pid = 7 and input = ?inp and uuid = "''j4''"
      and w = sample_world and u = "no_job_updates\<lparr>ju_status := Some JobError\<rparr>"
      and jobId = "''j2''" and outcome = "EngineFailure ''boom''"
      and ?job0.0 = "sample_job ''j2'' ''R2'' JobQueued 0"
      and acts = "[AStart, AIterate (EngineFailure ''boom'')]"]
    l i t f res
  show ?thesis by (auto split: sum.splits)
qed

section \<open>Attempts stay within the cap\<close>

lemma eligible_eq: "(\<lambda>job. j_status job = JobQueued \<and> j_attempts job < MAX_ATTEMPTS) = eligible"
  by (rule ext) (simp add: eligible_def)

lemma claim_locked_result:
  "claim_locked w =
     (case findIndex eligible (queue_file w) of
        None \<Rightarrow> (w, Inr None)
      | Some i \<Rightarrow>
          (w\<lparr>queue_file := (queue_file w)
                [i := (queue_file w ! i)\<lparr>j_status := JobProcessing,
                        j_attempts := j_attempts (queue_file w ! i) + 1,
                        j_updatedAt := clock w\<rparr>]\<rparr>,
           Inr (Some ((queue_file w ! i)\<lparr>j_status := JobProcessing,
                        j_attempts := j_attempts (queue_file w ! i) + 1,
                        j_updatedAt := clock w\<rparr>))))"
  by (simp add: claim_locked_def eligible_eq Let_def split: option.splits)

lemma attempts_in_range_map:
  "attempts_in_range q = list_all (\<lambda>a. 0 \<le> a \<and> a \<le> MAX_ATTEMPTS) (map j_attempts q)"
  by (simp add: attempts_in_range_def list_all_iff)

lemma same_attempts_in_range:
  "map j_attempts q' = map j_attempts q \<Longrightarrow> attempts_in_range q \<Longrightarrow> attempts_in_range q'"
  by (simp add: attempts_in_range_map)

lemma attempts_update_same:
  "i < length q \<Longrightarrow> j_attempts x = j_attempts (q ! i) \<Longrightarrow>
   map j_attempts (q[i := x]) = map j_attempts q"
  by (simp add: map_update list_update_same_conv)

lemma attempts_in_range_update:
  "attempts_in_range q \<Longrightarrow> 0 \<le> j_attempts x \<Longrightarrow> j_attempts x \<le> MAX_ATTEMPTS \<Longrightarrow>
   attempts_in_range (q[i := x])"
  unfolding attempts_in_range_def list_all_iff
  by (auto dest!: subsetD[OF set_update_subset_insert])

lemma enqueue_locked_attempts:
  "attempts_in_range (queue_file w) \<Longrightarrow>
   attempts_in_range (queue_file (fst (enqueue_locked input uuid w)))"
  by (auto simp: enqueue_locked_def Let_def attempts_in_range_def MAX_ATTEMPTS_def
        split: option.splits)

lemma claim_locked_attempts:
  assumes "attempts_in_range (queue_file w)"
  shows "attempts_in_range (queue_file (fst (claim_locked w)))"
proof (cases "findIndex eligible (queue_file w)")
  case None
  with assms show ?thesis by (simp add: claim_locked_result)
next
  case (Some i)
  from findIndex_Some[OF Some] have i: "i < length (queue_file w)"
    and e: "eligible (queue_file w ! i)" by auto
  from assms i have "0 \<le> j_attempts (queue_file w ! i)"
    by (simp add: attempts_in_range_def list_all_length)
  with e assms Some show ?thesis
    by (simp add: claim_locked_result eligible_def attempts_in_range_update)
qed

lemma update_locked_attempts:
  assumes "attempts_update_ok u" and "attempts_in_range (queue_file w)"
  shows "attempts_in_range (queue_file (fst (update_locked jobId u w)))"
proof (cases "findIndex (\<lambda>job. j_id job = jobId) (queue_file w)")
  case None
  with assms show ?thesis by (simp add: update_locked_def)
next
  case (Some i)
  from findIndex_Some[OF Some] have i: "i < length (queue_file w)" by auto
  from assms(2) i have "0 \<le> j_attempts (queue_file w ! i)" "j_attempts (queue_file w ! i) \<le> MAX_ATTEMPTS"
    by (simp_all add: attempts_in_range_def list_all_length)
  with assms Some show ?thesis
    by (auto simp: update_locked_def Let_def merge_job_def apply_opt_def attempts_update_ok_def
          split: option.splits intro!: attempts_in_range_update)
qed

lemma recover_jobs_attempts:
  "recover_jobs q w u = (js, w', u') \<Longrightarrow> map j_attempts js = map j_attempts q"
proof (induction q arbitrary: w u js)
  case Nil
  then show ?case by simp
next
  case (Cons job rest)
  from Cons.prems show ?case
  proof (cases rule: recover_jobs_Cons_cases)
    case (1 js0 wm um jn)
    from 1(3) have "j_attempts jn = j_attempts job"
      by (elim disjE conjE) simp_all
    with Cons.IH[OF 1(1)] 1(2) show ?thesis by simp
  qed
qed

lemma recover_locked_attempts:
  "map j_attempts (queue_file (fst (recover_locked w))) = map j_attempts (queue_file w)"
proof -
  obtain js w' u' where r: "recover_jobs (queue_file w) w False = (js, w', u')"
    by (cases "recover_jobs (queue_file w) w False") auto
  from recover_jobs_attempts[OF r] r show ?thesis by (simp add: recover_locked_queue)
qed

lemma terminal_attempts_ok: "terminal_updates u \<Longrightarrow> attempts_update_ok u"
  by (simp add: terminal_updates_def attempts_update_ok_def)

lemma enqueue_attempts:
  "attempts_in_range (queue_file w) \<Longrightarrow>
   attempts_in_range (queue_file (fst (enqueueTranscriptionJob pid input uuid w)))"
  unfolding enqueueTranscriptionJob_def
  by (rule withLock_queue_preserved[where P = attempts_in_range])
     (simp_all add: enqueue_locked_attempts)

lemma claim_attempts:
  "attempts_in_range (queue_file w) \<Longrightarrow>
   attempts_in_range (queue_file (fst (claimNextJob pid w)))"
  unfolding claimNextJob_def
  by (rule withLock_queue_preserved[where P = attempts_in_range])
     (simp_all add: claim_locked_attempts)

lemma recover_attempts_same:
  "map j_attempts (queue_file (fst (recoverQueue pid w))) = map j_attempts (queue_file w)"
  unfolding recoverQueue_def
  by (rule withLock_queue_preserved[where P = "\<lambda>q. map j_attempts q = map j_attempts (queue_file w)"])
     (simp_all add: recover_locked_attempts)

lemma recover_attempts:
  "attempts_in_range (queue_file w) \<Longrightarrow>
   attempts_in_range (queue_file (fst (recoverQueue pid w)))"
  by (rule same_attempts_in_range[OF recover_attempts_same])

lemma update_attempts:
  "attempts_update_ok u \<Longrightarrow> attempts_in_range (queue_file w) \<Longrightarrow>
   attempts_in_range (queue_file (fst (updateJob pid jobId u w)))"
  unfolding updateJob_def
  by (rule withLock_queue_preserved[where P = attempts_in_range])
     (simp_all add: update_locked_attempts)

lemma update_attempts_terminal:
  "terminal_updates u \<Longrightarrow> attempts_in_range (queue_file w) \<Longrightarrow>
   attempts_in_range (queue_file (fst (updateJob pid jobId u w)))"
  by (rule update_attempts[OF terminal_attempts_ok])

text \<open>
  C9. Every queue operation keeps every job's attempts between 0 and 3: enqueueing (a new
  job starts at 0), claiming (the claimed job is the only one whose attempts change, by
  one, and it was strictly below 3), recovery (which leaves all attempts as they are),
  an update whose partial carries no attempts field or one within the range, job
  processing, and every run of the server process.
\<close>

theorem attempts_within_cap:
  "(attempts_in_range (queue_file w) \<longrightarrow>
      attempts_in_range (queue_file (fst (enqueueTranscriptionJob pid input uuid w))) \<and>
      attempts_in_range (queue_file (fst (claimNextJob pid w))) \<and>
      attempts_in_range (queue_file (fst (recoverQueue pid w))) \<and>
      (attempts_update_ok u \<longrightarrow> attempts_in_range (queue_file (fst (updateJob pid jobId u w)))) \<and>
      attempts_in_range (queue_file (fst (processJob pid outcome job0 w))) \<and>
      attempts_in_range (queue_file (fst (run pid acts w)))) \<and>
   map j_attempts (queue_file (fst (recoverQueue pid w))) = map j_attempts (queue_file w) \<and>
   (map j_attempts (queue_file (fst (enqueueTranscriptionJob pid input uuid w))) = map j_attempts (queue_file w) \<or>
    map j_attempts (queue_file (fst (enqueueTranscriptionJob pid input uuid w))) = map j_attempts (queue_file w) @ [0]) \<and>
   (map j_attempts (queue_file (fst (claimNextJob pid w))) = map j_attempts (queue_file w) \<or>
    (\<exists>i < length (queue_file w).
       j_attempts (queue_file w ! i) < MAX_ATTEMPTS \<and>
       map j_attempts (queue_file (fst (claimNextJob pid w))) =
         (map j_attempts (queue_file w))[i := j_attempts (queue_file w ! i) + 1]))"
proof (intro conjI impI)
  assume inv: "attempts_in_range (queue_file w)"
  show "attempts_in_range (queue_file (fst (enqueueTranscriptionJob pid input uuid w)))"
    by (rule enqueue_attempts[OF inv])
  show "attempts_in_range (queue_file (fst (claimNextJob pid w)))"
    by (rule claim_attempts[OF inv])
  show "attempts_in_range (queue_file (fst (recoverQueue pid w)))"
    by (rule recover_attempts[OF inv])
  show "attempts_in_range (queue_file (fst (updateJob pid jobId u w)))" if "attempts_update_ok u"
    by (rule update_attempts[OF that inv])
  show "attempts_in_range (queue_file (fst (processJob pid outcome job0 w)))"
    by (rule processJob_queue_preserved[where P = attempts_in_range,
          OF update_attempts_terminal inv])
  show "attempts_in_range (queue_file (fst (run pid acts w)))"
    by (rule run_queue_preserved[where P = attempts_in_range,
          OF enqueue_attempts claim_attempts recover_attempts update_attempts_terminal inv])
next
  show "map j_attempts (queue_file (fst (recoverQueue pid w))) = map j_attempts (queue_file w)"
    by (rule recover_attempts_same)
next
  let ?P = "\<lambda>q. map j_attempts q = map j_attempts (queue_file w) \<or>
                 map j_attempts q = map j_attempts (queue_file w) @ [0]"
  obtain w' r where res: "enqueueTranscriptionJob pid input uuid w = (w', r)"
    by (cases "enqueueTranscriptionJob pid input uuid w")
  from res[unfolded enqueueTranscriptionJob_def] have "?P (queue_file w')"
  proof (cases rule: withLock_cases)
    case (timeout c)
    then show ?thesis by simp
  next
    case (ran c w2)
    from enqueue_locked_result[OF ran(1)] ran(2) show ?thesis
      by (auto simp: releaseLock_def split: option.splits)
  qed
  with res show "?P (queue_file (fst (enqueueTranscriptionJob pid input uuid w)))" by simp
next
  let ?q = "queue_file w"
  let ?P = "\<lambda>q. map j_attempts q = map j_attempts ?q \<or>
               (\<exists>i < length ?q. j_attempts (?q ! i) < MAX_ATTEMPTS \<and>
                  map j_attempts q = (map j_attempts ?q)[i := j_attempts (?q ! i) + 1])"
  obtain w' r where res: "claimNextJob pid w = (w', r)" by (cases "claimNextJob pid w")
  from res[unfolded claimNextJob_def] have "?P (queue_file w')"
  proof (cases rule: withLock_cases)
    case (timeout c)
    then show ?thesis by simp
  next
    case (ran c w2)
    let ?w1 = "w\<lparr>clock := c, lock_file := Some (LockInfo pid c)\<rparr>"
    show ?thesis
    proof (cases "findIndex eligible ?q")
      case None
      with ran show ?thesis by (auto simp: claim_locked_result releaseLock_def)
    next
      case (Some i)
      from findIndex_Some[OF Some] have i: "i < length ?q" "eligible (?q ! i)" by auto
      from ran Some have "map j_attempts (queue_file w') = (map j_attempts ?q)[i := j_attempts (?q ! i) + 1]"
        by (auto simp: claim_locked_result releaseLock_def map_update)
      with i show ?thesis by (auto simp: eligible_def)
    qed
  qed
  with res show "?P (queue_file (fst (claimNextJob pid w)))" by simp
qed

text \<open>The statement at a queue whose third job has used up its attempts.\<close>

theorem attempts_within_cap_witness:
  "attempts_in_range (queue_file sample_world) \<and>
   attempts_update_ok (no_job_updates\<lparr>ju_status := Some JobCompleted\<rparr>) \<and>
   attempts_in_range (queue_file (fst (claimNextJob 7 sample_world))) \<and>
   attempts_in_range (queue_file (fst (updateJob 7 ''j3''
       (no_job_updates\<lparr>ju_status := Some JobCompleted\<rparr>) sample_world))) \<and>
   map j_attempts (queue_file (fst (recoverQueue 7 sample_world))) = [1, 0, 3]"
proof -
  have i: "attempts_in_range (queue_file sample_world)"
    by (simp add: sample_world_def empty_world_def attempts_in_range_def sample_job_def
          MAX_ATTEMPTS_def)
  have t: "attempts_update_ok (no_job_updates\<lparr>ju_status := Some JobCompleted\<rparr>)"
    by (simp add: attempts_update_ok_def no_job_updates_def)
  have q: "map j_attempts (queue_file sample_world) = [1, 0, 3]"
    by (simp add: sample_world_def empty_world_def sample_job_def)
  from attempts_within_cap[where pid = 7 and w = sample_world and jobId = "''j3''"
      and u = "no_job_updates\<lparr>ju_status := Some JobCompleted\<rparr>"] i t q
  show ?thesis by simp
qed

section \<open>Claiming\<close>

lemma capped_untouched_refl: "capped_untouched q q"
  by (simp add: capped_untouched_def)

lemma capped_enqueue_locked:
  "capped_untouched q0 (queue_file w) \<Longrightarrow>
   capped_untouched q0 (queue_file (fst (enqueue_locked input uuid w)))"
  by (auto simp: enqueue_locked_def Let_def capped_untouched_def nth_append split: option.splits)

lemma capped_claim_locked:
  assumes "capped_untouched q0 (queue_file w)"
  shows "capped_untouched q0 (queue_file (fst (claim_locked w)))"
proof (cases "findIndex eligible (queue_file w)")
  case None
  with assms show ?thesis by (simp add: claim_locked_result)
next
  case (Some i)
  from findIndex_Some[OF Some] have i: "i < length (queue_file w)"
    and e: "j_attempts (queue_file w ! i) < MAX_ATTEMPTS" by (auto simp: eligible_def)
  show ?thesis using assms Some i e
    by (auto simp: claim_locked_result capped_untouched_def nth_list_update)
qed

lemma capped_same_attempts:
  assumes "map j_attempts q' = map j_attempts q" and "capped_untouched q0 q"
  shows "capped_untouched q0 q'"
proof -
  from assms(1) have len: "length q' = length q" by (metis length_map)
  have "j_attempts (q' ! k) = j_attempts (q ! k)" if "k < length q" for k
    using that assms(1) len by (metis nth_map)
  with assms(2) len show ?thesis by (auto simp: capped_untouched_def)
qed

lemma capped_update_locked:
  assumes "terminal_updates u" and "capped_untouched q0 (queue_file w)"
  shows "capped_untouched q0 (queue_file (fst (update_locked jobId u w)))"
proof (cases "findIndex (\<lambda>job. j_id job = jobId) (queue_file w)")
  case None
  with assms show ?thesis by (simp add: update_locked_def)
next
  case (Some i)
  from findIndex_Some[OF Some] have i: "i < length (queue_file w)" by auto
  have "map j_attempts (queue_file (fst (update_locked jobId u w))) = map j_attempts (queue_file w)"
    using Some assms(1) i
    by (simp add: update_locked_def Let_def attempts_update_same merge_job_def
          terminal_updates_def apply_opt_def)
  from capped_same_attempts[OF this assms(2)] show ?thesis .
qed

lemma capped_enqueue:
  "capped_untouched q0 (queue_file w) \<Longrightarrow>
   capped_untouched q0 (queue_file (fst (enqueueTranscriptionJob pid input uuid w)))"
  unfolding enqueueTranscriptionJob_def
  by (rule withLock_queue_preserved[where P = "capped_untouched q0"])
     (simp_all add: capped_enqueue_locked)

lemma capped_claim:
  "capped_untouched q0 (queue_file w) \<Longrightarrow>
   capped_untouched q0 (queue_file (fst (claimNextJob pid w)))"
  unfolding claimNextJob_def
  by (rule withLock_queue_preserved[where P = "capped_untouched q0"])
     (simp_all add: capped_claim_locked)

lemma capped_recover:
  "capped_untouched q0 (queue_file w) \<Longrightarrow>
   capped_untouched q0 (queue_file (fst (recoverQueue pid w)))"
  by (rule capped_same_attempts[OF recover_attempts_same])

lemma capped_update:
  "terminal_updates u \<Longrightarrow> capped_untouched q0 (queue_file w) \<Longrightarrow>
   capped_untouched q0 (queue_file (fst (updateJob pid jobId u w)))"
  unfolding updateJob_def
  by (rule withLock_queue_preserved[where P = "capped_untouched q0"])
     (simp_all add: capped_update_locked)

lemma claimNextJob_result:
  assumes "claimNextJob pid w = (w', r)"
  shows "(r = Inl QueueLockTimeout \<and> queue_file w' = queue_file w) \<or>
         (\<exists>c. (case findIndex eligible (queue_file w) of
                  None \<Rightarrow> r = Inr None \<and> queue_file w' = queue_file w
                | Some i \<Rightarrow>
                    r = Inr (Some ((queue_file w ! i)\<lparr>j_status := JobProcessing,
                            j_attempts := j_attempts (queue_file w ! i) + 1,
                            j_updatedAt := c\<rparr>)) \<and>
                    queue_file w' = (queue_file w)
                       [i := (queue_file w ! i)\<lparr>j_status := JobProcessing,
                            j_attempts := j_attempts (queue_file w ! i) + 1,
                            j_updatedAt := c\<rparr>]))"
  using assms[unfolded claimNextJob_def]
proof (cases rule: withLock_cases)
  case (timeout c)
  then show ?thesis by simp
next
  case (ran c w2)
  then have "case findIndex eligible (queue_file w) of
                  None \<Rightarrow> r = Inr None \<and> queue_file w' = queue_file w
                | Some i \<Rightarrow>
                    r = Inr (Some ((queue_file w ! i)\<lparr>j_status := JobProcessing,
                            j_attempts := j_attempts (queue_file w ! i) + 1,
                            j_updatedAt := c\<rparr>)) \<and>
                    queue_file w' = (queue_file w)
                       [i := (queue_file w ! i)\<lparr>j_status := JobProcessing,
                            j_attempts := j_attempts (queue_file w ! i) + 1,
                            j_updatedAt := c\<rparr>]"
    by (auto simp: claim_locked_result releaseLock_def split: option.splits)
  then show ?thesis by blast
qed

text \<open>
  C7. \<^verbatim>\<open>claimNextJob\<close> takes the first job that is queued with attempts strictly below 3:
  it returns that job as processing with one attempt more and writes it back at its place,
  leaving every other job as it was; it returns none, writing nothing, exactly when no job
  is eligible (given the lock). A job whose attempts have reached 3 is therefore never the
  one returned, and over every run of the server process its attempts stay what they were,
  so no later claim takes it either.
\<close>

theorem claim_first_eligible_never_capped:
  "(case claimNextJob pid w of
      (w', Inl e) \<Rightarrow> e = QueueLockTimeout \<and> queue_file w' = queue_file w
    | (w', Inr None) \<Rightarrow>
        queue_file w' = queue_file w \<and> (\<forall>job \<in> set (queue_file w). \<not> eligible job)
    | (w', Inr (Some next)) \<Rightarrow>
        (\<exists>i < length (queue_file w).
           eligible (queue_file w ! i) \<and> (\<forall>k < i. \<not> eligible (queue_file w ! k)) \<and>
           j_attempts (queue_file w ! i) < MAX_ATTEMPTS \<and>
           next = (queue_file w ! i)\<lparr>j_status := JobProcessing,
                     j_attempts := j_attempts (queue_file w ! i) + 1,
                     j_updatedAt := j_updatedAt next\<rparr> \<and>
           queue_file w' = (queue_file w)[i := next] \<and>
           (\<forall>k < length (queue_file w).
              MAX_ATTEMPTS \<le> j_attempts (queue_file w ! k) \<longrightarrow>
              k \<noteq> i \<and> queue_file w' ! k = queue_file w ! k))) \<and>
   (lock_file w = None \<longrightarrow>
      (\<exists>res. snd (claimNextJob pid w) = Inr res \<and>
             (res = None \<longleftrightarrow> (\<forall>job \<in> set (queue_file w). \<not> eligible job)))) \<and>
   capped_untouched (queue_file w) (queue_file (fst (run pid acts w)))"
proof (intro conjI impI)
  obtain w' r where res: "claimNextJob pid w = (w', r)" by (cases "claimNextJob pid w")
  let ?q = "queue_file w"
  from claimNextJob_result[OF res]
  have "case r of
          Inl e \<Rightarrow> e = QueueLockTimeout \<and> queue_file w' = ?q
        | Inr None \<Rightarrow> queue_file w' = ?q \<and> (\<forall>job \<in> set ?q. \<not> eligible job)
        | Inr (Some next) \<Rightarrow>
            (\<exists>i < length ?q.
               eligible (?q ! i) \<and> (\<forall>k < i. \<not> eligible (?q ! k)) \<and>
               j_attempts (?q ! i) < MAX_ATTEMPTS \<and>
               next = (?q ! i)\<lparr>j_status := JobProcessing,
                         j_attempts := j_attempts (?q ! i) + 1,
                         j_updatedAt := j_updatedAt next\<rparr> \<and>
               queue_file w' = ?q[i := next] \<and>
               (\<forall>k < length ?q.
                  MAX_ATTEMPTS \<le> j_attempts (?q ! k) \<longrightarrow> k \<noteq> i \<and> queue_file w' ! k = ?q ! k))"
  proof (elim disjE exE conjE)
    assume "r = Inl QueueLockTimeout" "queue_file w' = ?q"
    then show ?thesis by simp
  next
    fix c
    assume a: "case findIndex eligible ?q of
                  None \<Rightarrow> r = Inr None \<and> queue_file w' = ?q
                | Some i \<Rightarrow>
                    r = Inr (Some ((?q ! i)\<lparr>j_status := JobProcessing,
                            j_attempts := j_attempts (?q ! i) + 1, j_updatedAt := c\<rparr>)) \<and>
                    queue_file w' = ?q
                       [i := (?q ! i)\<lparr>j_status := JobProcessing,
                            j_attempts := j_attempts (?q ! i) + 1, j_updatedAt := c\<rparr>]"
    show ?thesis
    proof (cases "findIndex eligible ?q")
      case None
      with a findIndex_None[of eligible ?q] show ?thesis by simp
    next
      case (Some i)
      from findIndex_Some[OF Some] have i: "i < length ?q" "eligible (?q ! i)"
        "\<forall>k < i. \<not> eligible (?q ! k)" by auto
      from i(2) have lt: "j_attempts (?q ! i) < MAX_ATTEMPTS" by (simp add: eligible_def)
      let ?next = "(?q ! i)\<lparr>j_status := JobProcessing,
                            j_attempts := j_attempts (?q ! i) + 1, j_updatedAt := c\<rparr>"
      from a Some have r: "r = Inr (Some ?next)" and q': "queue_file w' = ?q[i := ?next]" by simp_all
      have "\<forall>k < length ?q. MAX_ATTEMPTS \<le> j_attempts (?q ! k) \<longrightarrow>
               k \<noteq> i \<and> queue_file w' ! k = ?q ! k"
      proof (intro allI impI)
        fix k assume "k < length ?q" "MAX_ATTEMPTS \<le> j_attempts (?q ! k)"
        with lt have "k \<noteq> i" by auto
        then show "k \<noteq> i \<and> queue_file w' ! k = ?q ! k" using q' by simp
      qed
      with i lt r q' show ?thesis by auto
    qed
  qed
  with res show "case claimNextJob pid w of
      (w', Inl e) \<Rightarrow> e = QueueLockTimeout \<and> queue_file w' = queue_file w
    | (w', Inr None) \<Rightarrow>
        queue_file w' = queue_file w \<and> (\<forall>job \<in> set (queue_file w). \<not> eligible job)
    | (w', Inr (Some next)) \<Rightarrow>
        (\<exists>i < length (queue_file w).
           eligible (queue_file w ! i) \<and> (\<forall>k < i. \<not> eligible (queue_file w ! k)) \<and>
           j_attempts (queue_file w ! i) < MAX_ATTEMPTS \<and>
           next = (queue_file w ! i)\<lparr>j_status := JobProcessing,
                     j_attempts := j_attempts (queue_file w ! i) + 1,
                     j_updatedAt := j_updatedAt next\<rparr> \<and>
           queue_file w' = (queue_file w)[i := next] \<and>
           (\<forall>k < length (queue_file w).
              MAX_ATTEMPTS \<le> j_attempts (queue_file w ! k) \<longrightarrow>
              k \<noteq> i \<and> queue_file w' ! k = queue_file w ! k))"
    by (simp split: sum.splits option.splits)
next
  assume free: "lock_file w = None"
  show "\<exists>res. snd (claimNextJob pid w) = Inr res \<and>
             (res = None \<longleftrightarrow> (\<forall>job \<in> set (queue_file w). \<not> eligible job))"
  proof (cases "findIndex eligible (queue_file w)")
    case None
    with free findIndex_None[of eligible "queue_file w"] show ?thesis
      by (simp add: claimNextJob_def withLock_free claim_locked_result)
  next
    case (Some i)
    from findIndex_Some[OF Some] have "i < length (queue_file w)" "eligible (queue_file w ! i)" by auto
    then have "\<not> (\<forall>job \<in> set (queue_file w). \<not> eligible job)" using nth_mem by blast
    with free Some show ?thesis
      by (simp add: claimNextJob_def withLock_free claim_locked_result)
  qed
next
  show "capped_untouched (queue_file w) (queue_file (fst (run pid acts w)))"
    by (rule run_queue_preserved[where P = "capped_untouched (queue_file w)",
          OF capped_enqueue capped_claim capped_recover capped_update capped_untouched_refl])
qed

text \<open>The statement at a queue whose first job is processing, whose second is eligible and
  whose third has used up its attempts: the second job is claimed.\<close>

theorem claim_first_eligible_never_capped_witness:
  "lock_file sample_world = None \<and>
   (\<exists>next. snd (claimNextJob 7 sample_world) = Inr (Some next)) \<and>
   j_attempts (queue_file (fst (run 7 [AIterate (EngineFailure ''boom''), AStart,
       AIterate (Transcribed 3 1)] sample_world)) ! 2) = 3"
proof -
  have l: "lock_file sample_world = None"
    by (simp add: sample_world_def empty_world_def)
  have e: "\<not> (\<forall>job \<in> set (queue_file sample_world). \<not> eligible job)"
    by (simp add: sample_world_def empty_world_def eligible_def sample_job_def MAX_ATTEMPTS_def)
  have q: "length (queue_file sample_world) = 3" "j_attempts (queue_file sample_world ! 2) = 3"
    by (simp_all add: sample_world_def empty_world_def sample_job_def)
  from claim_first_eligible_never_capped[where pid = 7 and w = sample_world
      and acts = "[AIterate (EngineFailure ''boom''), AStart, AIterate (Transcribed 3 1)]"] l e q
  show ?thesis by (auto simp: capped_untouched_def MAX_ATTEMPTS_def)
qed

section \<open>Lock acquisition\<close>

lemma lock_expired_mono: "now \<le> now' \<Longrightarrow> lock_expired now c \<Longrightarrow> lock_expired now' c"
  by (cases c) (auto simp: lock_expired_def)

lemma acquireLock_held:
  "lock_file w = Some content \<Longrightarrow>
   acquireLock pid w =
     (if lock_expired (clock w) content
      then (w\<lparr>lock_file := Some (LockInfo pid (clock w))\<rparr>, True) else (w, False))"
  by (cases content) (simp_all add: acquireLock_closed lock_expired_def)

lemma withLock_loop_held:
  "lock_file w = Some content \<Longrightarrow>
   (attempt < maxRetries \<longrightarrow>
      \<not> lock_expired (clock w + (int maxRetries - 1 - int attempt) * retryDelayMs) content) \<Longrightarrow>
   withLock_loop pid fn attempt w =
     (w\<lparr>clock := clock w + int (maxRetries - attempt) * retryDelayMs\<rparr>, Inl QueueLockTimeout)"
proof (induction pid fn attempt w rule: withLock_loop.induct)
  case (1 pid fn attempt w)
  show ?case
  proof (cases "attempt < maxRetries")
    case False
    then show ?thesis by (simp add: withLock_loop.simps[of pid fn attempt w])
  next
    case True
    with "1.prems"(2)
    have ne: "\<not> lock_expired (clock w + (int maxRetries - 1 - int attempt) * retryDelayMs) content"
      by simp
    have "clock w \<le> clock w + (int maxRetries - 1 - int attempt) * retryDelayMs"
      using True by (simp add: retryDelayMs_def)
    with ne lock_expired_mono have now: "\<not> lock_expired (clock w) content" by blast
    with "1.prems"(1) have acq: "acquireLock pid w = (w, False)"
      by (simp add: acquireLock_held)
    let ?w1 = "sleep retryDelayMs w"
    have l1: "lock_file ?w1 = Some content" using "1.prems"(1) by (simp add: sleep_def)
    have c1: "attempt + 1 < maxRetries \<longrightarrow>
        \<not> lock_expired (clock ?w1 + (int maxRetries - 1 - int (attempt + 1)) * retryDelayMs) content"
    proof
      assume "attempt + 1 < maxRetries"
      have "clock ?w1 + (int maxRetries - 1 - int (attempt + 1)) * retryDelayMs
            = clock w + (int maxRetries - 1 - int attempt) * retryDelayMs"
        by (simp add: sleep_def algebra_simps)
      with ne show "\<not> lock_expired (clock ?w1 + (int maxRetries - 1 - int (attempt + 1)) * retryDelayMs) content"
        by simp
    qed
    from "1.IH"[OF True acq[symmetric] _ l1 c1]
    have "withLock_loop pid fn (attempt + 1) ?w1 =
            (?w1\<lparr>clock := clock ?w1 + int (maxRetries - (attempt + 1)) * retryDelayMs\<rparr>,
             Inl QueueLockTimeout)" by simp
    moreover have "?w1\<lparr>clock := clock ?w1 + int (maxRetries - (attempt + 1)) * retryDelayMs\<rparr>
        = w\<lparr>clock := clock w + int (maxRetries - attempt) * retryDelayMs\<rparr>"
    proof -
      have "int (maxRetries - attempt) = int (maxRetries - (attempt + 1)) + 1"
        using True by simp
      then show ?thesis by (simp add: sleep_def algebra_simps)
    qed
    ultimately show ?thesis using True acq
      by (simp add: withLock_loop.simps[of pid fn attempt w])
  qed
qed

lemma withLock_held:
  assumes "lock_file w = Some content"
    and "\<not> lock_expired (clock w + (int maxRetries - 1) * retryDelayMs) content"
  shows "withLock pid fn w = (w\<lparr>clock := clock w + int maxRetries * retryDelayMs\<rparr>, Inl QueueLockTimeout)"
  using withLock_loop_held[of w content 0 pid fn] assms by (simp add: withLock_def)

text \<open>
  C8. When the lock file exists, \<^verbatim>\<open>acquireLock\<close> takes the lock over (deletes the file and
  acquires it afresh) exactly when the recorded age is strictly more than the TTL of ten
  minutes; a lock no older than the TTL, or one without a readable start time, is left as
  it is and the call returns false. \<^verbatim>\<open>withLock\<close> on a lock that stays unexpired through
  its twenty attempts, one every 100 ms, runs nothing, leaves the lock, and throws the
  timeout after the twentieth delay.
\<close>

theorem lock_reclaimed_iff_older_than_ttl:
  "LOCK_TTL_MS = 600000 \<and> maxRetries = 20 \<and> retryDelayMs = 100 \<and>
   (lock_file w = Some (LockInfo holder startedAt) \<longrightarrow>
      acquireLock pid w =
        (if clock w - startedAt > LOCK_TTL_MS
         then (w\<lparr>lock_file := Some (LockInfo pid (clock w))\<rparr>, True)
         else (w, False)) \<and>
      (clock w + 19 * 100 - startedAt \<le> LOCK_TTL_MS \<longrightarrow>
         withLock pid fn w = (w\<lparr>clock := clock w + 20 * 100\<rparr>, Inl QueueLockTimeout)) \<and>
      (clock w - startedAt > LOCK_TTL_MS \<longrightarrow>
         withLock pid fn w =
           (case fn (w\<lparr>lock_file := Some (LockInfo pid (clock w))\<rparr>) of
              (w2, r) \<Rightarrow> (releaseLock w2, r)))) \<and>
   (lock_file w = Some LockUnreadable \<longrightarrow>
      acquireLock pid w = (w, False) \<and>
      withLock pid fn w = (w\<lparr>clock := clock w + 20 * 100\<rparr>, Inl QueueLockTimeout))"
proof (intro conjI impI)
  show "LOCK_TTL_MS = 600000" by (simp add: LOCK_TTL_MS_def)
  show "maxRetries = 20" by (simp add: maxRetries_def)
  show "retryDelayMs = 100" by (simp add: retryDelayMs_def)
next
  assume l: "lock_file w = Some (LockInfo holder startedAt)"
  show "acquireLock pid w =
        (if clock w - startedAt > LOCK_TTL_MS
         then (w\<lparr>lock_file := Some (LockInfo pid (clock w))\<rparr>, True)
         else (w, False))"
    using l by (simp add: acquireLock_closed)
  show "withLock pid fn w = (w\<lparr>clock := clock w + 20 * 100\<rparr>, Inl QueueLockTimeout)"
    if "clock w + 19 * 100 - startedAt \<le> LOCK_TTL_MS"
    using withLock_held[OF l, of pid fn] that
    by (simp add: lock_expired_def maxRetries_def retryDelayMs_def)
  show "withLock pid fn w =
           (case fn (w\<lparr>lock_file := Some (LockInfo pid (clock w))\<rparr>) of
              (w2, r) \<Rightarrow> (releaseLock w2, r))"
    if "clock w - startedAt > LOCK_TTL_MS"
    using l that
    by (simp add: withLock_def withLock_loop.simps[of pid fn 0 w] maxRetries_def acquireLock_closed)
next
  assume l: "lock_file w = Some LockUnreadable"
  show "acquireLock pid w = (w, False)" using l by (simp add: acquireLock_closed)
  show "withLock pid fn w = (w\<lparr>clock := clock w + 20 * 100\<rparr>, Inl QueueLockTimeout)"
    using withLock_held[OF l, of pid fn]
    by (simp add: lock_expired_def maxRetries_def retryDelayMs_def)
qed

text \<open>The statement at a clock of 700000 ms: a lock started at 100000 is exactly ten
  minutes old and is not taken over, nor is one started at 200000, which makes an enqueue
  time out at 702000; a lock started at 99999 is taken over.\<close>

theorem lock_reclaimed_iff_older_than_ttl_witness:
  "lock_file (held_world 100000) = Some (LockInfo 99 100000) \<and>
   \<not> snd (acquireLock 7 (held_world 100000)) \<and>
   lock_file (fst (acquireLock 7 (held_world 100000))) = Some (LockInfo 99 100000) \<and>
   snd (acquireLock 7 (held_world 99999)) \<and>
   lock_file (fst (acquireLock 7 (held_world 99999))) = Some (LockInfo 7 700000) \<and>
   clock (held_world 200000) + 19 * 100 - 200000 \<le> LOCK_TTL_MS \<and>
   snd (withLock 7 claim_locked (held_world 200000)) = Inl QueueLockTimeout \<and>
   clock (fst (withLock 7 claim_locked (held_world 200000))) = 702000 \<and>
   lock_file (fst (withLock 7 claim_locked (held_world 200000))) = Some (LockInfo 99 200000)"
proof -
  have a: "lock_file (held_world 100000) = Some (LockInfo 99 100000)"
    by (simp add: held_world_def)
  have b: "lock_file (held_world 99999) = Some (LockInfo 99 99999)"
    by (simp add: held_world_def)
  have c: "lock_file (held_world 200000) = Some (LockInfo 99 200000)"
    by (simp add: held_world_def)
  have d: "clock (held_world 200000) + 19 * 100 - 200000 \<le> LOCK_TTL_MS"
    by (simp add: held_world_def LOCK_TTL_MS_def)
  have ca: "clock (held_world 100000) = 700000" "clock (held_world 99999) = 700000"
    "clock (held_world 200000) = 700000" by (simp_all add: held_world_def)
  from lock_reclaimed_iff_older_than_ttl[where w = "held_world 100000" and holder = 99
        and startedAt = 100000 and pid = 7 and fn = claim_locked]
    lock_reclaimed_iff_older_than_ttl[where w = "held_world 99999" and holder = 99
        and startedAt = 99999 and pid = 7 and fn = claim_locked]
    lock_reclaimed_iff_older_than_ttl[where w = "held_world 200000" and holder = 99
        and startedAt = 200000 and pid = 7 and fn = claim_locked]
    a b c d ca
  show ?thesis by simp
qed

section \<open>Recovery\<close>

lemma find_update_first:
  "i < length rs \<Longrightarrow> r_id (rs ! i) = r \<Longrightarrow> (\<forall>k < i. r_id (rs ! k) \<noteq> r) \<Longrightarrow> r_id y = r \<Longrightarrow>
   find (\<lambda>x. r_id x = r') (rs[i := y]) = (if r' = r then Some y else find (\<lambda>x. r_id x = r') rs)"
proof (induction rs arbitrary: i)
  case Nil
  then show ?case by simp
next
  case (Cons x xs)
  show ?case
  proof (cases i)
    case 0
    with Cons.prems show ?thesis by auto
  next
    case (Suc n)
    from Cons.prems Suc have x: "r_id x \<noteq> r" by auto
    from Cons.prems Suc have n: "n < length xs" "r_id (xs ! n) = r" "\<forall>k < n. r_id (xs ! k) \<noteq> r"
      by auto
    from Cons.IH[OF n Cons.prems(4)] x Suc show ?thesis by auto
  qed
qed

lemma updateRound_status:
  "round_status (fst (updateRound w r (no_round_updates\<lparr>up_status := Some s\<rparr>))) r' =
     (if r' = r \<and> round_status w r \<noteq> None then Some s else round_status w r')"
proof (cases "findIndex (\<lambda>x. r_id x = r) (rounds_file w)")
  case None
  then have "find (\<lambda>x. r_id x = r) (rounds_file w) = None"
    by (simp add: findIndex_None find_None_iff)
  with None show ?thesis by (simp add: updateRound_def round_status_def getRound_def)
next
  case (Some i)
  let ?rs = "rounds_file w"
  let ?y = "merge_round (?rs ! i) (no_round_updates\<lparr>up_status := Some s\<rparr>)"
  from findIndex_Some[OF Some] have i: "i < length ?rs" "r_id (?rs ! i) = r"
    "\<forall>k < i. r_id (?rs ! k) \<noteq> r" by auto
  have y: "r_id ?y = r" "r_status ?y = s"
    using i(2) by (simp_all add: merge_round_def no_round_updates_def apply_opt_def)
  from i have "find (\<lambda>x. r_id x = r) ?rs \<noteq> None"
    by (auto simp: find_None_iff in_set_conv_nth)
  with find_update_first[OF i y(1), of r'] Some y show ?thesis
    by (auto simp: updateRound_def round_status_def getRound_def Let_def)
qed

lemma recover_jobs_map:
  "recover_jobs q w u = (js, w', u') \<Longrightarrow> js = map (reconcile_job w) q"
proof (induction q arbitrary: w u js)
  case Nil
  then show ?case by simp
next
  case (Cons job rest)
  from Cons.prems show ?case
  proof (cases rule: recover_jobs_Cons_cases)
    case (1 js0 wm um jn)
    from 1(3) have same: "transcription_dir wm = transcription_dir w" "clock wm = clock w"
      by (auto simp: updateRound_other_fields)
    then have "reconcile_job wm = reconcile_job w"
      by (intro ext) (simp add: reconcile_job_def transcriptionExists_def)
    moreover from 1(3) have "jn = reconcile_job w job"
      by (elim disjE conjE) (simp_all add: reconcile_job_def)
    ultimately show ?thesis using Cons.IH[OF 1(1)] 1(2) by simp
  qed
qed

lemma recover_jobs_rounds:
  "recover_jobs q w u = (js, w', u') \<Longrightarrow>
   round_status w' r =
     (if round_status w r = None then None
      else if (\<exists>job \<in> set q. j_status job = JobProcessing \<and> j_roundId job = r) \<and>
              r \<in> transcription_dir w then Some COMPLETED
      else if (\<exists>job \<in> set q. j_status job = JobProcessing \<and> j_roundId job = r \<and>
                 \<not> j_attempts job < MAX_ATTEMPTS) then Some ERROR
      else round_status w r)"
proof (induction q arbitrary: w u js)
  case Nil
  then show ?case by simp
next
  case (Cons job rest)
  from Cons.prems show ?case
  proof (cases rule: recover_jobs_Cons_cases)
    case (1 js0 wm um jn)
    note ih = Cons.IH[OF 1(1)]
    from 1(3) have tx: "transcription_dir wm = transcription_dir w"
      by (auto simp: updateRound_other_fields)
    from 1(3) consider
        (skip) "j_status job \<noteq> JobProcessing" "wm = w"
      | (transcribed) "j_status job = JobProcessing" "j_roundId job \<in> transcription_dir w"
          "wm = fst (updateRound w (j_roundId job) (no_round_updates\<lparr>up_status := Some COMPLETED\<rparr>))"
      | (requeue) "j_status job = JobProcessing" "j_roundId job \<notin> transcription_dir w"
          "j_attempts job < MAX_ATTEMPTS" "wm = w"
      | (exhausted) "j_status job = JobProcessing" "j_roundId job \<notin> transcription_dir w"
          "\<not> j_attempts job < MAX_ATTEMPTS"
          "wm = fst (updateRound w (j_roundId job) (no_round_updates\<lparr>up_status := Some ERROR\<rparr>))"
      by (auto simp: transcriptionExists_def)
    then show ?thesis
    proof cases
      case skip
      with ih show ?thesis by auto
    next
      case transcribed
      have "round_status wm r = (if r = j_roundId job \<and> round_status w (j_roundId job) \<noteq> None
                                 then Some COMPLETED else round_status w r)"
        unfolding transcribed(3) by (rule updateRound_status)
      with ih tx transcribed(1,2) show ?thesis by (cases "r = j_roundId job") auto
    next
      case requeue
      with ih show ?thesis by (cases "r = j_roundId job") auto
    next
      case exhausted
      have "round_status wm r = (if r = j_roundId job \<and> round_status w (j_roundId job) \<noteq> None
                                 then Some ERROR else round_status w r)"
        unfolding exhausted(4) by (rule updateRound_status)
      with ih tx exhausted(1,2,3) show ?thesis by (cases "r = j_roundId job") auto
    qed
  qed
qed

lemma withLock_flags:
  assumes "\<And>w1. flags (fst (fn w1)) = flags w1"
  shows "flags (fst (withLock pid fn w)) = flags w"
proof -
  obtain w' r where res: "withLock pid fn w = (w', r)" by (cases "withLock pid fn w")
  from res show ?thesis
  proof (cases rule: withLock_cases)
    case (timeout c)
    with res show ?thesis by (simp add: flags_def)
  next
    case (ran c w2)
    from assms[of "w\<lparr>clock := c, lock_file := Some (LockInfo pid c)\<rparr>"] ran res
    show ?thesis by (simp add: flags_def releaseLock_def)
  qed
qed

lemma updateRound_flags: "flags (fst (updateRound w r u)) = flags w"
  by (simp add: flags_def updateRound_other_fields)




lemma recover_locked_flags: "flags (fst (recover_locked w)) = flags w"
proof -
  obtain js w' u' where r: "recover_jobs (queue_file w) w False = (js, w', u')"
    by (cases "recover_jobs (queue_file w) w False") auto
  from recover_jobs_world[OF r] r show ?thesis
    by (simp add: recover_locked_def flags_def)
qed

lemma recover_flags: "flags (fst (recoverQueue pid w)) = flags w"
  unfolding recoverQueue_def by (rule withLock_flags) (rule recover_locked_flags)





lemma start_started: "workerStarted w \<Longrightarrow> startTranscriptionWorker pid w = (w, [], Inr ())"
  by (simp add: startTranscriptionWorker_def)

lemma start_fresh:
  assumes "\<not> workerStarted w"
  shows "workerStarted (fst (startTranscriptionWorker pid w)) \<and>
         fst (snd (startTranscriptionWorker pid w)) = [CallRecoverQueue]"
proof -
  from recover_flags[of pid "w\<lparr>workerStarted := True\<rparr>"]
  have "workerStarted (fst (recoverQueue pid (w\<lparr>workerStarted := True\<rparr>)))"
    by (simp add: flags_def)
  with assms show ?thesis
    by (auto simp: startTranscriptionWorker_def split: prod.splits sum.splits)
qed



lemma recoverQueue_result:
  assumes "recoverQueue pid w = (w', r)"
  shows "(r = Inl QueueLockTimeout \<and> queue_file w' = queue_file w \<and> rounds_file w' = rounds_file w) \<or>
         (\<exists>c. r = Inr () \<and>
              queue_file w' = map (reconcile_job (w\<lparr>clock := c\<rparr>)) (queue_file w) \<and>
              (\<forall>rd. round_status w' rd =
                 (if round_status w rd = None then None
                  else if (\<exists>job \<in> set (queue_file w). j_status job = JobProcessing \<and> j_roundId job = rd) \<and>
                          rd \<in> transcription_dir w then Some COMPLETED
                  else if (\<exists>job \<in> set (queue_file w). j_status job = JobProcessing \<and> j_roundId job = rd \<and>
                             \<not> j_attempts job < MAX_ATTEMPTS) then Some ERROR
                  else round_status w rd)))"
  using assms[unfolded recoverQueue_def]
proof (cases rule: withLock_cases)
  case (timeout c)
  then show ?thesis by simp
next
  case (ran c w2)
  let ?w1 = "w\<lparr>clock := c, lock_file := Some (LockInfo pid c)\<rparr>"
  obtain js wr u' where rj: "recover_jobs (queue_file ?w1) ?w1 False = (js, wr, u')"
    by (cases "recover_jobs (queue_file ?w1) ?w1 False") auto
  have rs: "\<And>v rd f. round_status (v\<lparr>queue_file := f\<rparr>) rd = round_status v rd"
    "\<And>v rd f. round_status (v\<lparr>lock_file := f\<rparr>) rd = round_status v rd"
    "\<And>v rd f. round_status (v\<lparr>clock := f\<rparr>) rd = round_status v rd"
    by (simp_all add: round_status_def getRound_def)
  have "reconcile_job ?w1 = reconcile_job (w\<lparr>clock := c\<rparr>)"
    by (intro ext) (simp add: reconcile_job_def transcriptionExists_def)
  with recover_jobs_map[OF rj] have js: "js = map (reconcile_job (w\<lparr>clock := c\<rparr>)) (queue_file w)"
    by simp
  from ran(1) rj have w2: "r = Inr ()" "w2 = (if u' then wr\<lparr>queue_file := js\<rparr> else wr)"
    by (auto simp: recover_locked_def)
  have q: "queue_file w' = js"
  proof (cases u')
    case True
    with w2 ran(2) show ?thesis by (simp add: releaseLock_def)
  next
    case False
    from recover_jobs_not_updated[OF rj False] recover_jobs_world[OF rj] w2 ran(2) False
    show ?thesis by (simp add: releaseLock_def)
  qed
  have "round_status w' rd = round_status wr rd" for rd
    using w2 ran(2) by (simp add: releaseLock_def rs)
  with recover_jobs_rounds[OF rj] have
    "\<forall>rd. round_status w' rd =
                 (if round_status w rd = None then None
                  else if (\<exists>job \<in> set (queue_file w). j_status job = JobProcessing \<and> j_roundId job = rd) \<and>
                          rd \<in> transcription_dir w then Some COMPLETED
                  else if (\<exists>job \<in> set (queue_file w). j_status job = JobProcessing \<and> j_roundId job = rd \<and>
                             \<not> j_attempts job < MAX_ATTEMPTS) then Some ERROR
                  else round_status w rd)"
    by (simp add: rs cong: if_cong)
  with q js w2(1) show ?thesis by blast
qed

lemma recoverQueue_free: "lock_file w = None \<Longrightarrow> snd (recoverQueue pid w) = Inr ()"
  by (simp add: recoverQueue_def withLock_free recover_locked_def split: prod.splits)















section \<open>Missing chunks\<close>

declare missing_loop_ts.simps [simp del]
declare missing_loop_js.simps [simp del]
declare read_chunks_ts.simps [simp del]
declare read_chunks_js.simps [simp del]

lemma missing_loop_ts_closed:
  "missing_loop_ts received i n missing =
     missing @ filter (\<lambda>k. k \<notin> set received) [i..n - 1]"
proof (induction received i n missing rule: missing_loop_ts.induct)
  case (1 received i n missing)
  show ?case
  proof (cases "i < n")
    case True
    then have "[i..n - 1] = i # [i + 1..n - 1]" by (simp add: upto_rec1)
    with True "1.IH"[OF True] show ?thesis
      by (simp add: missing_loop_ts.simps[of received i n missing])
  next
    case False
    then show ?thesis by (simp add: missing_loop_ts.simps[of received i n missing])
  qed
qed

lemma map_int_upt: "map int [0 ..< nat n] = [0..n - 1]"
  by (rule nth_equalityI) auto

lemma findMissingChunks_ts_closed:
  "findMissingChunks_ts w roundId n = filter (\<lambda>k. k \<notin> received_set w roundId) [0..n - 1]"
  by (simp add: findMissingChunks_ts_def received_set_def missing_loop_ts_closed map_int_upt
        split: option.splits)

lemma saveChunk_ts_ok:
  assumes "chunk_write_ok io" "manifest_write_ok io"
  shows "\<exists>w'. saveChunk_ts io w roundId sequence buffer = (w', Inr ()) \<and>
              received_set w' roundId = insert sequence (received_set w roundId)"
proof (cases "chunk_dirs w roundId")
  case None
  with assms show ?thesis
    by (simp add: saveChunk_ts_def ensureChunkDirectory_ts_def updateChunkManifest_ts_def
          Let_def received_set_def getChunkManifest_ts_def empty_chunk_dir_def)
next
  case (Some d)
  with assms show ?thesis
    by (cases "manifest_json d")
       (auto simp: saveChunk_ts_def ensureChunkDirectory_ts_def updateChunkManifest_ts_def
          Let_def received_set_def getChunkManifest_ts_def)
qed

lemma save_all_ts_ok:
  assumes "chunk_write_ok io" "manifest_write_ok io"
  shows "\<exists>w'. save_all_ts io w roundId chunks = (w', Inr ()) \<and>
              received_set w' roundId = received_set w roundId \<union> fst ` set chunks"
proof (induction chunks arbitrary: w)
  case Nil
  then show ?case by simp
next
  case (Cons c rest)
  obtain sequence buffer where c: "c = (sequence, buffer)" by (cases c)
  from saveChunk_ts_ok[OF assms, of w roundId sequence buffer]
  obtain w1 where s: "saveChunk_ts io w roundId sequence buffer = (w1, Inr ())"
    "received_set w1 roundId = insert sequence (received_set w roundId)" by blast
  from Cons.IH[of w1] obtain w' where r: "save_all_ts io w1 roundId rest = (w', Inr ())"
    "received_set w' roundId = received_set w1 roundId \<union> fst ` set rest" by blast
  from s r c show ?case by auto
qed

text \<open>
  C5. \<^verbatim>\<open>findMissingChunks(roundId, expectedTotal)\<close> returns exactly the integers of
  \<open>[0, expectedTotal)\<close> that are not in the manifest's received set, in ascending order and
  each once. After \<^verbatim>\<open>saveChunk\<close> has gone through for each chunk of a list, in any order and
  with any repetitions, the received set has grown by the list's sequence numbers; so when
  the list covers \<open>0, \<dots>, N - 1\<close> nothing is missing below \<open>N\<close>.
\<close>

theorem missing_chunks_exact:
  "findMissingChunks_ts w roundId n = filter (\<lambda>k. k \<notin> received_set w roundId) [0..n - 1] \<and>
   sorted (findMissingChunks_ts w roundId n) \<and>
   distinct (findMissingChunks_ts w roundId n) \<and>
   set (findMissingChunks_ts w roundId n) = {0..<n} - received_set w roundId \<and>
   (chunk_write_ok io \<and> manifest_write_ok io \<longrightarrow>
      snd (save_all_ts io w roundId chunks) = Inr () \<and>
      received_set (fst (save_all_ts io w roundId chunks)) roundId =
        received_set w roundId \<union> fst ` set chunks \<and>
      ({0..<n} \<subseteq> fst ` set chunks \<longrightarrow>
         findMissingChunks_ts (fst (save_all_ts io w roundId chunks)) roundId n = []))"
proof (intro conjI impI)
  show c: "findMissingChunks_ts w roundId n = filter (\<lambda>k. k \<notin> received_set w roundId) [0..n - 1]"
    by (rule findMissingChunks_ts_closed)
  show "sorted (findMissingChunks_ts w roundId n)"
    unfolding c by (rule sorted_wrt_filter) simp
  show "distinct (findMissingChunks_ts w roundId n)"
    unfolding c by simp
  show "set (findMissingChunks_ts w roundId n) = {0..<n} - received_set w roundId"
    unfolding c by auto
next
  assume ok: "chunk_write_ok io \<and> manifest_write_ok io"
  from save_all_ts_ok[of io w roundId chunks] ok
  obtain w' where r: "save_all_ts io w roundId chunks = (w', Inr ())"
    "received_set w' roundId = received_set w roundId \<union> fst ` set chunks" by blast
  from r show "snd (save_all_ts io w roundId chunks) = Inr ()" by simp
  from r show "received_set (fst (save_all_ts io w roundId chunks)) roundId =
        received_set w roundId \<union> fst ` set chunks" by simp
  show "findMissingChunks_ts (fst (save_all_ts io w roundId chunks)) roundId n = []"
    if "{0..<n} \<subseteq> fst ` set chunks"
    using that r by (auto simp: findMissingChunks_ts_closed filter_empty_conv)
qed

text \<open>The statement for the chunks 0, 1, 2 arriving as 2, 0, 2, 1 on a fresh store: after
  the first two chunk 1 is the missing one, after all four nothing is.\<close>

theorem missing_chunks_exact_witness:
  "chunk_write_ok all_writes_ok \<and> manifest_write_ok all_writes_ok \<and>
   {0..<3::int} \<subseteq> fst ` set [(2::int, ''C''), (0, ''A''), (2, ''C''), (1, ''B'')] \<and>
   findMissingChunks_ts
     (fst (save_all_ts all_writes_ok empty_world ''R''
             [(2::int, ''C''), (0, ''A''), (2, ''C''), (1, ''B'')])) ''R'' 3 = [] \<and>
   findMissingChunks_ts (fst (save_all_ts all_writes_ok empty_world ''R'' [(2::int, ''C''), (0, ''A'')]))
     ''R'' 3 = [1] \<and>
   findMissingChunks_ts empty_world ''R'' 3 = [0, 1, 2]"
proof -
  have ok: "chunk_write_ok all_writes_ok \<and> manifest_write_ok all_writes_ok"
    by (simp add: all_writes_ok_def)
  have cover: "{0..<3::int} \<subseteq> fst ` set [(2::int, ''C''), (0, ''A''), (2, ''C''), (1, ''B'')]"
  proof
    fix x :: int assume "x \<in> {0..<3::int}"
    then have "x = 0 \<or> x = 1 \<or> x = 2" by auto
    then show "x \<in> fst ` set [(2::int, ''C''), (0, ''A''), (2, ''C''), (1, ''B'')]" by auto
  qed
  have e: "received_set empty_world ''R'' = {}"
    by (simp add: received_set_def getChunkManifest_ts_def empty_world_def)
  have u: "[0..(2::int)] = [0, 1, 2]" by (simp add: upto_rec1)
  from missing_chunks_exact[where io = all_writes_ok and w = empty_world and roundId = "''R''"
      and n = 3 and chunks = "[(2::int, ''C''), (0, ''A''), (2, ''C''), (1, ''B'')]"] ok cover
  have a: "findMissingChunks_ts
     (fst (save_all_ts all_writes_ok empty_world ''R''
             [(2::int, ''C''), (0, ''A''), (2, ''C''), (1, ''B'')])) ''R'' 3 = []" by blast
  from missing_chunks_exact[where io = all_writes_ok and w = empty_world and roundId = "''R''"
      and n = 3 and chunks = "[(2::int, ''C''), (0, ''A'')]"] ok e
  have r2: "received_set (fst (save_all_ts all_writes_ok empty_world ''R'' [(2::int, ''C''), (0, ''A'')])) ''R''
            = {2, 0}" by auto
  from missing_chunks_exact[where
      w = "fst (save_all_ts all_writes_ok empty_world ''R'' [(2::int, ''C''), (0, ''A'')])"
      and roundId = "''R''" and n = 3 and io = all_writes_ok and chunks = "[]", THEN conjunct1]
  have b: "findMissingChunks_ts (fst (save_all_ts all_writes_ok empty_world ''R'' [(2::int, ''C''), (0, ''A'')]))
     ''R'' 3 = [1]" by (simp del: save_all_ts.simps add: r2 u)
  from missing_chunks_exact[where w = empty_world and roundId = "''R''" and n = 3
      and io = all_writes_ok and chunks = "[]", THEN conjunct1]
  have c: "findMissingChunks_ts empty_world ''R'' 3 = [0, 1, 2]" by (simp add: e u)
  from ok cover a b c show ?thesis by blast
qed

section \<open>Assembly\<close>

lemma read_chunks_ts_missing:
  "i \<le> k \<Longrightarrow> k < n \<Longrightarrow> files k = None \<Longrightarrow> (\<forall>j. i \<le> j \<and> j < k \<longrightarrow> files j \<noteq> None) \<Longrightarrow>
   read_chunks_ts files i n chunks = Inl (MissingChunk k)"
proof (induction files i n chunks rule: read_chunks_ts.induct)
  case (1 files i n chunks)
  from "1.prems" have lt: "i < n" by simp
  show ?case
  proof (cases "i = k")
    case True
    with lt "1.prems" show ?thesis by (subst read_chunks_ts.simps) simp
  next
    case False
    with "1.prems" have ik: "i < k" by simp
    with "1.prems" obtain b where b: "files i = Some b" by auto
    from ik "1.prems" have "read_chunks_ts files (i + 1) n (chunks @ [b]) = Inl (MissingChunk k)"
      by (intro "1.IH"[OF lt b]) auto
    with lt b show ?thesis by (simp add: read_chunks_ts.simps[of files i n chunks])
  qed
qed

lemma read_chunks_ts_all:
  "(\<forall>j. i \<le> j \<and> j < n \<longrightarrow> files j \<noteq> None) \<Longrightarrow>
   read_chunks_ts files i n chunks = Inr (chunks @ map (\<lambda>j. the (files j)) [i..n - 1])"
proof (induction files i n chunks rule: read_chunks_ts.induct)
  case (1 files i n chunks)
  show ?case
  proof (cases "i < n")
    case False
    then show ?thesis by (simp add: read_chunks_ts.simps[of files i n chunks])
  next
    case True
    with "1.prems" obtain b where b: "files i = Some b" by auto
    from True have u: "[i..n - 1] = i # [i + 1..n - 1]" by (simp add: upto_rec1)
    from "1.prems" have "read_chunks_ts files (i + 1) n (chunks @ [b]) =
        Inr ((chunks @ [b]) @ map (\<lambda>j. the (files j)) [i + 1..n - 1])"
      by (intro "1.IH"[OF True b]) auto
    with True b u show ?thesis by (simp add: read_chunks_ts.simps[of files i n chunks])
  qed
qed

text \<open>
  C4. \<^verbatim>\<open>assembleChunks\<close> reads the chunks \<open>0, \<dots>, totalChunks - 1\<close> in ascending order.
  If a chunk of that range is absent it fails with \<^verbatim>\<open>Missing chunk k\<close> for the first absent
  index \<open>k\<close>, and the store is exactly as before: no artifact, nothing skipped, the staging
  data in place. If all are present the artifact is the concatenation of the chunks in
  sequence order, stored under the round's name and the extension of the MIME type, and the
  staging directory is removed; when the write of the artifact fails the call throws and
  the store is as before. So the staging data changes only together with a written artifact.
\<close>

theorem assemble_concatenates_or_fails_first_gap:
  "(0 \<le> k \<and> k < totalChunks \<and> staged_files w roundId k = None \<and>
    (\<forall>j. 0 \<le> j \<and> j < k \<longrightarrow> staged_files w roundId j \<noteq> None) \<longrightarrow>
      assembleChunks_ts io w roundId totalChunks mime = (w, Inl (MissingChunk k))) \<and>
   ((\<forall>j. 0 \<le> j \<and> j < totalChunks \<longrightarrow> staged_files w roundId j \<noteq> None) \<longrightarrow>
      assembleChunks_ts io w roundId totalChunks mime =
        (if artifact_write_ok io
         then (w\<lparr> audio_dir := (audio_dir w)
                     (roundId @ ''.'' @ extension_of mime \<mapsto>
                        concat (map (\<lambda>j. the (staged_files w roundId j)) [0..totalChunks - 1])),
                   chunk_dirs := (chunk_dirs w)(roundId := None) \<rparr>,
               Inr (''/audio/'' @ roundId @ ''.'' @ extension_of mime))
         else (w, Inl WriteFailed))) \<and>
   (chunk_dirs (fst (assembleChunks_ts io w roundId totalChunks mime)) roundId
      \<noteq> chunk_dirs w roundId \<longrightarrow>
      artifact_write_ok io \<and>
      snd (assembleChunks_ts io w roundId totalChunks mime) =
        Inr (''/audio/'' @ roundId @ ''.'' @ extension_of mime) \<and>
      audio_dir (fst (assembleChunks_ts io w roundId totalChunks mime))
          (roundId @ ''.'' @ extension_of mime) =
        Some (concat (map (\<lambda>j. the (staged_files w roundId j)) [0..totalChunks - 1])))"
proof (intro conjI impI)
  assume "0 \<le> k \<and> k < totalChunks \<and> staged_files w roundId k = None \<and>
    (\<forall>j. 0 \<le> j \<and> j < k \<longrightarrow> staged_files w roundId j \<noteq> None)"
  then have "read_chunks_ts (staged_files w roundId) 0 totalChunks [] = Inl (MissingChunk k)"
    by (intro read_chunks_ts_missing) auto
  then show "assembleChunks_ts io w roundId totalChunks mime = (w, Inl (MissingChunk k))"
    by (simp add: assembleChunks_ts_def staged_files_def Let_def)
next
  assume "\<forall>j. 0 \<le> j \<and> j < totalChunks \<longrightarrow> staged_files w roundId j \<noteq> None"
  from read_chunks_ts_all[OF this, of "[]"]
  show "assembleChunks_ts io w roundId totalChunks mime =
        (if artifact_write_ok io
         then (w\<lparr> audio_dir := (audio_dir w)
                     (roundId @ ''.'' @ extension_of mime \<mapsto>
                        concat (map (\<lambda>j. the (staged_files w roundId j)) [0..totalChunks - 1])),
                   chunk_dirs := (chunk_dirs w)(roundId := None) \<rparr>,
               Inr (''/audio/'' @ roundId @ ''.'' @ extension_of mime))
         else (w, Inl WriteFailed))"
    by (simp add: assembleChunks_ts_def staged_files_def Let_def)
next
  assume ch: "chunk_dirs (fst (assembleChunks_ts io w roundId totalChunks mime)) roundId
      \<noteq> chunk_dirs w roundId"
  have all: "\<forall>j. 0 \<le> j \<and> j < totalChunks \<longrightarrow> staged_files w roundId j \<noteq> None"
  proof (rule ccontr)
    assume "\<not> (\<forall>j. 0 \<le> j \<and> j < totalChunks \<longrightarrow> staged_files w roundId j \<noteq> None)"
    then obtain j where j: "0 \<le> j" "j < totalChunks" "staged_files w roundId j = None" by auto
    then have "\<exists>e. read_chunks_ts (staged_files w roundId) 0 totalChunks [] = Inl e"
    proof -
      have "\<exists>k. 0 \<le> k \<and> k \<le> j \<and> staged_files w roundId k = None \<and>
                (\<forall>i. 0 \<le> i \<and> i < k \<longrightarrow> staged_files w roundId i \<noteq> None)"
      proof -
        let ?S = "{k. 0 \<le> k \<and> k \<le> j \<and> staged_files w roundId k = None}"
        have fin: "finite ?S" by (rule finite_subset[of _ "{0..j}"]) auto
        have ne: "?S \<noteq> {}" using j by auto
        let ?k = "Min ?S"
        from Min_in[OF fin ne] have k: "0 \<le> ?k" "?k \<le> j" "staged_files w roundId ?k = None"
          by auto
        have "staged_files w roundId i \<noteq> None" if "0 \<le> i" "i < ?k" for i
        proof
          assume "staged_files w roundId i = None"
          with that k have "i \<in> ?S" by auto
          from Min_le[OF fin this] that show False by simp
        qed
        with k show ?thesis by blast
      qed
      then obtain k where "0 \<le> k" "k \<le> j" "staged_files w roundId k = None"
        "\<forall>i. 0 \<le> i \<and> i < k \<longrightarrow> staged_files w roundId i \<noteq> None" by blast
      with j have "read_chunks_ts (staged_files w roundId) 0 totalChunks [] = Inl (MissingChunk k)"
        by (intro read_chunks_ts_missing) auto
      then show ?thesis by blast
    qed
    then have "fst (assembleChunks_ts io w roundId totalChunks mime) = w"
      by (auto simp: assembleChunks_ts_def staged_files_def Let_def)
    with ch show False by simp
  qed
  from read_chunks_ts_all[OF all, of "[]"]
  have r: "assembleChunks_ts io w roundId totalChunks mime =
        (if artifact_write_ok io
         then (w\<lparr> audio_dir := (audio_dir w)
                     (roundId @ ''.'' @ extension_of mime \<mapsto>
                        concat (map (\<lambda>j. the (staged_files w roundId j)) [0..totalChunks - 1])),
                   chunk_dirs := (chunk_dirs w)(roundId := None) \<rparr>,
               Inr (''/audio/'' @ roundId @ ''.'' @ extension_of mime))
         else (w, Inl WriteFailed))"
    by (simp add: assembleChunks_ts_def staged_files_def Let_def)
  from r ch show ok: "artifact_write_ok io" by (cases "artifact_write_ok io") simp_all
  from r ok show "snd (assembleChunks_ts io w roundId totalChunks mime) =
        Inr (''/audio/'' @ roundId @ ''.'' @ extension_of mime)" by simp
  from r ok show "audio_dir (fst (assembleChunks_ts io w roundId totalChunks mime))
          (roundId @ ''.'' @ extension_of mime) =
        Some (concat (map (\<lambda>j. the (staged_files w roundId j)) [0..totalChunks - 1]))" by simp
qed

text \<open>The statement for round R: with the chunks A, C, B stored under 0, 2, 1 the artifact
  is ABC under R.webm and the staging directory is gone; with chunk 1 absent the call fails
  at 1 and writes nothing.\<close>

theorem assemble_concatenates_or_fails_first_gap_witness:
  "staged_files (staged_world [(0, ''A''), (2, ''C'')]) ''R'' 1 = None \<and>
   staged_files (staged_world [(0, ''A''), (2, ''C'')]) ''R'' 0 = Some ''A'' \<and>
   snd (assembleChunks_ts all_writes_ok (staged_world [(0, ''A''), (2, ''C'')]) ''R'' 3 ''audio/webm'')
     = Inl (MissingChunk 1) \<and>
   audio_dir (fst (assembleChunks_ts all_writes_ok (staged_world [(0, ''A''), (2, ''C'')]) ''R'' 3
     ''audio/webm'')) ''R.webm'' = None \<and>
   staged_files (staged_world [(0, ''A''), (2, ''C''), (1, ''B'')]) ''R'' 0 = Some ''A'' \<and>
   staged_files (staged_world [(0, ''A''), (2, ''C''), (1, ''B'')]) ''R'' 1 = Some ''B'' \<and>
   staged_files (staged_world [(0, ''A''), (2, ''C''), (1, ''B'')]) ''R'' 2 = Some ''C'' \<and>
   snd (assembleChunks_ts all_writes_ok (staged_world [(0, ''A''), (2, ''C''), (1, ''B'')]) ''R'' 3
     ''audio/webm'') = Inr ''/audio/R.webm'' \<and>
   audio_dir (fst (assembleChunks_ts all_writes_ok (staged_world [(0, ''A''), (2, ''C''), (1, ''B'')])
     ''R'' 3 ''audio/webm'')) ''R.webm'' = Some ''ABC'' \<and>
   chunk_dirs (fst (assembleChunks_ts all_writes_ok (staged_world [(0, ''A''), (2, ''C''), (1, ''B'')])
     ''R'' 3 ''audio/webm'')) ''R'' = None"
proof -
  let ?G = "staged_world [(0, ''A''), (2, ''C'')]"
  let ?W = "staged_world [(0, ''A''), (2, ''C''), (1, ''B'')]"
  have g: "staged_files ?G ''R'' = map_of [(0, ''A''), (2, ''C'')]"
    by (simp add: staged_files_def staged_world_def empty_world_def)
  have w: "staged_files ?W ''R'' = map_of [(0, ''A''), (2, ''C''), (1, ''B'')]"
    by (simp add: staged_files_def staged_world_def empty_world_def)
  have g1: "staged_files ?G ''R'' 1 = None" by (simp add: g)
  have g0: "\<forall>j. 0 \<le> j \<and> j < 1 \<longrightarrow> staged_files ?G ''R'' j \<noteq> None"
  proof (intro allI impI)
    fix j :: int assume "0 \<le> j \<and> j < 1"
    then have "j = 0" by simp
    then show "staged_files ?G ''R'' j \<noteq> None" by (simp add: g)
  qed
  have wall: "\<forall>j. 0 \<le> j \<and> j < 3 \<longrightarrow> staged_files ?W ''R'' j \<noteq> None"
  proof (intro allI impI)
    fix j :: int assume "0 \<le> j \<and> j < 3"
    then have "j = 0 \<or> j = 1 \<or> j = 2" by auto
    then show "staged_files ?W ''R'' j \<noteq> None" by (auto simp: w)
  qed
  have ext: "extension_of ''audio/webm'' = ''webm''" by (simp add: extension_of_def)
  have u: "[0..(2::int)] = [0, 1, 2]" by (simp add: upto_rec1)
  have ok: "artifact_write_ok all_writes_ok" by (simp add: all_writes_ok_def)
  have ag: "audio_dir ?G ''R.webm'' = None" "audio_dir ?W = Map.empty"
    by (simp_all add: staged_world_def empty_world_def)
  from assemble_concatenates_or_fails_first_gap[where w = ?G and roundId = "''R''" and k = 1
      and totalChunks = 3 and io = all_writes_ok and mime = "''audio/webm''", THEN conjunct1]
    g1 g0
  have a: "assembleChunks_ts all_writes_ok ?G ''R'' 3 ''audio/webm'' = (?G, Inl (MissingChunk 1))"
    by simp
  from assemble_concatenates_or_fails_first_gap[where w = ?W and roundId = "''R''" and k = 1
      and totalChunks = 3 and io = all_writes_ok and mime = "''audio/webm''",
      THEN conjunct2, THEN conjunct1] wall ok
  have b: "assembleChunks_ts all_writes_ok ?W ''R'' 3 ''audio/webm'' =
        (?W\<lparr> audio_dir := (audio_dir ?W)
                     (''R'' @ ''.'' @ extension_of ''audio/webm'' \<mapsto>
                        concat (map (\<lambda>j. the (staged_files ?W ''R'' j)) [0..3 - 1])),
                   chunk_dirs := (chunk_dirs ?W)(''R'' := None) \<rparr>,
               Inr (''/audio/'' @ ''R'' @ ''.'' @ extension_of ''audio/webm''))"
    by simp
  have c: "concat (map (\<lambda>j. the (staged_files ?W ''R'' j)) [0..3 - 1]) = ''ABC''"
    by (simp add: u w)
  from a ag have r1: "snd (assembleChunks_ts all_writes_ok ?G ''R'' 3 ''audio/webm'') = Inl (MissingChunk 1)"
    "audio_dir (fst (assembleChunks_ts all_writes_ok ?G ''R'' 3 ''audio/webm'')) ''R.webm'' = None"
    by simp_all
  from b c ext have r2: "snd (assembleChunks_ts all_writes_ok ?W ''R'' 3 ''audio/webm'') = Inr ''/audio/R.webm''"
    "audio_dir (fst (assembleChunks_ts all_writes_ok ?W ''R'' 3 ''audio/webm'')) ''R.webm'' = Some ''ABC''"
    "chunk_dirs (fst (assembleChunks_ts all_writes_ok ?W ''R'' 3 ''audio/webm'')) ''R'' = None"
    by simp_all
  have pts: "staged_files ?G ''R'' 0 = Some ''A''" "staged_files ?W ''R'' 0 = Some ''A''"
    "staged_files ?W ''R'' 1 = Some ''B''" "staged_files ?W ''R'' 2 = Some ''C''"
    by (simp_all add: g w)
  from g1 pts r1 r2 show ?thesis by blast
qed

section \<open>The two chunk stores agree\<close>

lemma missing_loop_js_ts:
  "missing_loop_js received i n missing = missing_loop_ts received i n missing"
proof (induction received i n missing rule: missing_loop_ts.induct)
  case (1 received i n missing)
  then show ?case
    by (simp add: missing_loop_ts.simps[of received i n missing]
          missing_loop_js.simps[of received i n missing])
qed

lemma read_chunks_js_ts:
  "read_chunks_js files i n chunks = read_chunks_ts files i n chunks"
proof (induction files i n chunks rule: read_chunks_ts.induct)
  case (1 files i n chunks)
  then show ?case
    by (simp add: read_chunks_ts.simps[of files i n chunks]
          read_chunks_js.simps[of files i n chunks] split: option.splits)
qed

lemma missing_loop_js_eq: "missing_loop_js = missing_loop_ts"
  by (intro ext) (rule missing_loop_js_ts)

lemma read_chunks_js_eq: "read_chunks_js = read_chunks_ts"
  by (intro ext) (rule read_chunks_js_ts)

lemma updateChunkManifest_js_eq: "updateChunkManifest_js = updateChunkManifest_ts"
  by (intro ext) (simp add: updateChunkManifest_js_def updateChunkManifest_ts_def)

lemma updateChunkManifest_js_ts:
  "updateChunkManifest_js io w roundId sequence mime =
   updateChunkManifest_ts io w roundId sequence mime"
  by (simp add: updateChunkManifest_js_eq)

lemma saveChunk_js_ts:
  "saveChunk_js io w roundId sequence buffer = saveChunk_ts io w roundId sequence buffer"
  unfolding saveChunk_js_def saveChunk_ts_def ensureChunkDirectory_js_def
    ensureChunkDirectory_ts_def updateChunkManifest_js_eq ..

lemma findMissingChunks_js_ts:
  "findMissingChunks_js w roundId n = findMissingChunks_ts w roundId n"
  unfolding findMissingChunks_js_def findMissingChunks_ts_def getChunkManifest_js_def
    getChunkManifest_ts_def missing_loop_js_eq ..

lemma assembleChunks_js_ts:
  "assembleChunks_js io w roundId n mime = assembleChunks_ts io w roundId n mime"
  unfolding assembleChunks_js_def assembleChunks_ts_def read_chunks_js_eq ..

text \<open>
  C10. The CommonJS chunk store used by the WebSocket server and the TypeScript chunk store
  used by the API routes compute the same thing on every input: \<^verbatim>\<open>saveChunk\<close>,
  \<^verbatim>\<open>updateChunkManifest\<close>, \<^verbatim>\<open>getChunkManifest\<close>, \<^verbatim>\<open>findMissingChunks\<close> and
  \<^verbatim>\<open>assembleChunks\<close> return the same result and leave the same files, manifests and
  artifacts; the two differ in their logging only.
\<close>

theorem chunk_stores_agree:
  "saveChunk_js io w roundId sequence buffer = saveChunk_ts io w roundId sequence buffer \<and>
   updateChunkManifest_js io w roundId sequence mime =
     updateChunkManifest_ts io w roundId sequence mime \<and>
   getChunkManifest_js w roundId = getChunkManifest_ts w roundId \<and>
   findMissingChunks_js w roundId n = findMissingChunks_ts w roundId n \<and>
   assembleChunks_js io w roundId n mime = assembleChunks_ts io w roundId n mime"
  by (simp add: saveChunk_js_ts updateChunkManifest_js_ts findMissingChunks_js_ts
        assembleChunks_js_ts getChunkManifest_js_def getChunkManifest_ts_def)

text \<open>The statement on a fresh store, where the TypeScript store misses 0, 1, 2: so does the
  CommonJS one.\<close>

theorem chunk_stores_agree_witness:
  "findMissingChunks_js empty_world ''R'' 3 = [0, 1, 2]"
proof -
  have "findMissingChunks_ts empty_world ''R'' 3 = [0, 1, 2]"
    by (simp add: findMissingChunks_ts_closed received_set_def getChunkManifest_ts_def
          empty_world_def upto_rec1)
  with chunk_stores_agree[where w = empty_world and roundId = "''R''" and n = 3
      and io = all_writes_ok and sequence = 0 and buffer = "[]" and mime = "[]"]
  show ?thesis by simp
qed

section \<open>The stream session\<close>

text \<open>A session that is not awaiting a payload stays so whatever arrives: a
  \<^verbatim>\<open>Buffer\<close> is kept as the one unexpected binary buffer, anything else is answered
  \<^verbatim>\<open>INVALID_FORMAT\<close>. A connection starts in that state, so over any sequence of
  frames it changes nothing in the store, keeps its state but for that buffer, and sends
  nothing but \<^verbatim>\<open>INVALID_FORMAT\<close> errors.\<close>

lemma handleMessage_not_awaiting:
  assumes "\<not> awaitingChunkData state"
  shows "handleMessage io data (w, state, sent) =
           (case data of
              BufferData buf \<Rightarrow> (w, state\<lparr>unexpectedBinaryBuffer := Some buf\<rparr>, sent)
            | NotBuffer \<Rightarrow>
                (w, state, sent @ [ErrorFrame ''Invalid message format'' ''INVALID_FORMAT'']))"
  using assms by (simp add: handleMessage_def split: WsData.splits)

lemma receive_all_not_awaiting:
  assumes "\<not> awaitingChunkData state"
  shows "\<exists>buffered k.
           receive_all frames (w, state, sent) =
             (w, state\<lparr>unexpectedBinaryBuffer := buffered\<rparr>,
              sent @ replicate k (ErrorFrame ''Invalid message format'' ''INVALID_FORMAT''))"
  using assms
proof (induction frames arbitrary: state sent)
  case Nil
  have "receive_all [] (w, state, sent) =
          (w, state\<lparr>unexpectedBinaryBuffer := unexpectedBinaryBuffer state\<rparr>,
           sent @ replicate 0 (ErrorFrame ''Invalid message format'' ''INVALID_FORMAT''))"
    by simp
  then show ?case by blast
next
  case (Cons f rest)
  obtain io data where f: "f = (io, data)" by (cases f)
  show ?case
  proof (cases data)
    case (BufferData buf)
    let ?s = "state\<lparr>unexpectedBinaryBuffer := Some buf\<rparr>"
    have na: "\<not> awaitingChunkData ?s" using Cons.prems by simp
    from Cons.IH[OF na, of sent] obtain buffered k where
      "receive_all rest (w, ?s, sent) =
         (w, ?s\<lparr>unexpectedBinaryBuffer := buffered\<rparr>,
          sent @ replicate k (ErrorFrame ''Invalid message format'' ''INVALID_FORMAT''))"
      by blast
    with f BufferData Cons.prems have
      "receive_all (f # rest) (w, state, sent) =
         (w, state\<lparr>unexpectedBinaryBuffer := buffered\<rparr>,
          sent @ replicate k (ErrorFrame ''Invalid message format'' ''INVALID_FORMAT''))"
      by (simp add: handleMessage_not_awaiting)
    then show ?thesis by blast
  next
    case NotBuffer
    let ?e = "ErrorFrame ''Invalid message format'' ''INVALID_FORMAT''"
    from Cons.IH[OF Cons.prems, of "sent @ [?e]"] obtain buffered k where
      "receive_all rest (w, state, sent @ [?e]) =
         (w, state\<lparr>unexpectedBinaryBuffer := buffered\<rparr>, (sent @ [?e]) @ replicate k ?e)"
      by blast
    with f NotBuffer Cons.prems have
      "receive_all (f # rest) (w, state, sent) =
         (w, state\<lparr>unexpectedBinaryBuffer := buffered\<rparr>, sent @ replicate (Suc k) ?e)"
      by (simp add: handleMessage_not_awaiting replicate_append_same)
    then show ?thesis by blast
  qed
qed

lemma connection_never_leaves_initial_state:
  "\<exists>buffered k.
     receive_all frames (w, handleConnection sid now, []) =
       (w, (handleConnection sid now)\<lparr>unexpectedBinaryBuffer := buffered\<rparr>,
        replicate k (ErrorFrame ''Invalid message format'' ''INVALID_FORMAT''))"
proof -
  have "\<not> awaitingChunkData (handleConnection sid now)" by (simp add: handleConnection_def)
  from receive_all_not_awaiting[OF this, of frames w "[]"] show ?thesis by simp
qed

text \<open>
  C1. A client follows the protocol on a fresh connection: \<^verbatim>\<open>init\<close> for round R, the
  announcement of chunk 0, its payload, then \<^verbatim>\<open>complete\<close> with one chunk; every write
  would succeed. Each frame arrives as a \<^verbatim>\<open>Buffer\<close> while the session is not awaiting a
  payload and only replaces the unexpected binary buffer. After the \<^verbatim>\<open>complete\<close> frame
  the store is what it was (round R still created, no chunk, no artifact, no job in the
  queue) and no frame has been sent: nothing was assembled, the round was not marked
  processing, no job was enqueued, no \<^verbatim>\<open>complete\<close> reply was made. Delivered as values that
  are not \<^verbatim>\<open>Buffer\<close>s, the three JSON frames are answered \<^verbatim>\<open>INVALID_FORMAT\<close> and the
  store is again unchanged.
\<close>

theorem complete_frame_never_dispatched:
  "receive_all
     [(all_writes_ok, BufferData (init_frame ''R'')),
      (all_writes_ok, BufferData (chunk_frame ''0'')),
      (all_writes_ok, BufferData ''A''),
      (all_writes_ok, BufferData (complete_frame ''1''))]
     (round_world, handleConnection ''session_1'' 1000, []) =
   (round_world,
    (handleConnection ''session_1'' 1000)\<lparr>unexpectedBinaryBuffer := Some (complete_frame ''1'')\<rparr>,
    []) \<and>
   receive_all
     [(all_writes_ok, NotBuffer), (all_writes_ok, NotBuffer), (all_writes_ok, BufferData ''A''),
      (all_writes_ok, NotBuffer)]
     (round_world, handleConnection ''session_1'' 1000, []) =
   (round_world,
    (handleConnection ''session_1'' 1000)\<lparr>unexpectedBinaryBuffer := Some ''A''\<rparr>,
    [ErrorFrame ''Invalid message format'' ''INVALID_FORMAT'',
     ErrorFrame ''Invalid message format'' ''INVALID_FORMAT'',
     ErrorFrame ''Invalid message format'' ''INVALID_FORMAT'']) \<and>
   round_status round_world ''R'' = Some CREATED \<and>
   chunk_dirs round_world ''R'' = None \<and>
   audio_dir round_world ''R.webm'' = None \<and>
   queue_file round_world = []"
  by (simp add: handleMessage_def handleConnection_def round_world_def empty_world_def
        round_status_def getRound_def sample_round_def)


section \<open>The handlers behind the dispatch, as functions\<close>

text \<open>What the code after the dispatch does when it is called with a state in which the
  session has a round; by \<open>connection_never_leaves_initial_state\<close> no sequence of frames
  leads there. The \<^verbatim>\<open>catch\<close> of a failed chunk save sends \<^verbatim>\<open>CHUNK_SAVE_ERROR\<close> and leaves
  the state awaiting; \<^verbatim>\<open>handleComplete\<close> marks the round processing and replies before
  the request it sends has enqueued anything.\<close>

lemma handleMessage_catch_keeps_awaiting:
  "handleMessage chunk_write_fails (BufferData ''A'') (staged_world [], awaiting_session, []) =
     (staged_world [], awaiting_session, [ErrorFrame ''Failed to save chunk'' ''CHUNK_SAVE_ERROR''])"
  by (simp add: handleMessage_def awaiting_session_def chunk_write_fails_def
        saveChunk_js_def ensureChunkDirectory_js_def updateChunkManifest_js_def
        staged_world_def empty_world_def Let_def)

lemma getRound_updateRound:
  assumes "up_id u = None"
  shows "getRound (fst (updateRound w r u)) r' =
     (if r' = r then map_option (\<lambda>x. merge_round x u) (getRound w r) else getRound w r')"
proof (cases "findIndex (\<lambda>x. r_id x = r) (rounds_file w)")
  case None
  then have "find (\<lambda>x. r_id x = r) (rounds_file w) = None"
    by (simp add: findIndex_None find_None_iff)
  with None show ?thesis by (simp add: updateRound_def getRound_def)
next
  case (Some i)
  let ?rs = "rounds_file w"
  let ?y = "merge_round (?rs ! i) u"
  from findIndex_Some[OF Some] have i: "i < length ?rs" "r_id (?rs ! i) = r"
    "\<forall>k < i. r_id (?rs ! k) \<noteq> r" by auto
  have y: "r_id ?y = r" using i(2) assms by (simp add: merge_round_def apply_opt_def)
  have "find (\<lambda>x. r_id x = r) ?rs = Some (?rs ! i)"
    using i by (auto simp: find_Some_iff intro!: exI[of _ i])
  with find_update_first[OF i y, of r'] Some show ?thesis
    by (simp add: updateRound_def getRound_def Let_def)
qed

lemma assembleChunks_js_other_fields:
  assumes "assembleChunks_js io w r n mime = (w1, res)"
  shows "rounds_file w1 = rounds_file w \<and> queue_file w1 = queue_file w \<and>
         lock_file w1 = lock_file w \<and> clock w1 = clock w \<and>
         transcription_dir w1 = transcription_dir w \<and> flags w1 = flags w"
  using assms
  by (auto simp: assembleChunks_js_def Let_def flags_def split: sum.splits if_splits)

lemma assembleChunks_js_path:
  "assembleChunks_js io w r n mime = (w1, Inr path) \<Longrightarrow>
   path = ''/audio/'' @ r @ ''.'' @ extension_of mime"
  by (auto simp: assembleChunks_js_def Let_def split: sum.splits if_splits)

lemma round_status_fields:
  "round_status (v\<lparr>queue_file := q\<rparr>) rd = round_status v rd"
  "round_status (v\<lparr>lock_file := l\<rparr>) rd = round_status v rd"
  "round_status (v\<lparr>clock := c\<rparr>) rd = round_status v rd"
  "round_status (v\<lparr>workerStarted := b\<rparr>) rd = round_status v rd"
  "round_status (v\<lparr>loop_running := b\<rparr>) rd = round_status v rd"
  by (simp_all add: round_status_def getRound_def)

lemma handleComplete_success:
  assumes rid: "s_roundId state = Some r" and rne: "r \<noteq> []"
    and nomiss: "findMissingChunks_js w r totalChunks = []"
    and asm: "assembleChunks_js io w r totalChunks (mimeType state) = (w1, Inr path)"
    and ex: "getRound w r \<noteq> None"
  shows "handleComplete io totalChunks duration (w, state, sent) =
           (fst (updateRound w1 r (no_round_updates\<lparr>up_status := Some PROCESSING,
                     up_audio_file := Some (Some path), up_duration_seconds := Some duration\<rparr>)),
            sent @ [Complete totalChunks path], Some r)"
    and "round_status (fst (handleComplete io totalChunks duration (w, state, sent))) r = Some PROCESSING"
    and "map_option r_audio_file (getRound (fst (handleComplete io totalChunks duration (w, state, sent))) r)
           = Some (Some path)"
    and "queue_file (fst (handleComplete io totalChunks duration (w, state, sent))) = queue_file w"
    and "lock_file (fst (handleComplete io totalChunks duration (w, state, sent))) = lock_file w"
    and "flags (fst (handleComplete io totalChunks duration (w, state, sent))) = flags w"
proof -
  let ?u = "no_round_updates\<lparr>up_status := Some PROCESSING,
                     up_audio_file := Some (Some path), up_duration_seconds := Some duration\<rparr>"
  show hc: "handleComplete io totalChunks duration (w, state, sent) =
           (fst (updateRound w1 r ?u), sent @ [Complete totalChunks path], Some r)"
    using rid rne nomiss asm by (simp add: handleComplete_def Let_def)
  from assembleChunks_js_other_fields[OF asm]
  have f: "rounds_file w1 = rounds_file w" "queue_file w1 = queue_file w"
    "lock_file w1 = lock_file w" "flags w1 = flags w" by simp_all
  from ex f(1) obtain rd where rd: "getRound w1 r = Some rd" by (auto simp: getRound_def)
  have uid: "up_id ?u = None" by (simp add: no_round_updates_def)
  from getRound_updateRound[OF uid, of w1 r r] rd
  have g: "getRound (fst (updateRound w1 r ?u)) r = Some (merge_round rd ?u)" by simp
  show "round_status (fst (handleComplete io totalChunks duration (w, state, sent))) r = Some PROCESSING"
    unfolding hc using g by (simp add: round_status_def merge_round_def apply_opt_def)
  show "map_option r_audio_file (getRound (fst (handleComplete io totalChunks duration (w, state, sent))) r)
           = Some (Some path)"
    unfolding hc using g by (simp add: merge_round_def apply_opt_def)
  show "queue_file (fst (handleComplete io totalChunks duration (w, state, sent))) = queue_file w"
    unfolding hc using f by (simp add: updateRound_other_fields)
  show "lock_file (fst (handleComplete io totalChunks duration (w, state, sent))) = lock_file w"
    unfolding hc using f by (simp add: updateRound_other_fields)
  show "flags (fst (handleComplete io totalChunks duration (w, state, sent))) = flags w"
    unfolding hc using f by (simp add: updateRound_flags)
qed

lemma enqueue_free_result:
  assumes free: "lock_file w = None"
    and noproc: "\<forall>job \<in> set (queue_file w). j_roundId job = in_roundId input \<longrightarrow>
                   j_status job \<noteq> JobProcessing"
  shows "\<exists>w2 job. enqueueTranscriptionJob pid input uuid w = (w2, Inr job) \<and>
           job \<in> set (queue_file w2) \<and> j_roundId job = in_roundId input \<and>
           j_status job = JobQueued \<and>
           (queue_file w2 = queue_file w \<or> queue_file w2 = queue_file w @ [job]) \<and>
           lock_file w2 = None \<and> rounds_file w2 = rounds_file w \<and>
           transcription_dir w2 = transcription_dir w \<and> flags w2 = flags w"
proof -
  let ?wl = "w\<lparr>lock_file := Some (LockInfo pid (clock w))\<rparr>"
  obtain wa ra where el: "enqueue_locked input uuid ?wl = (wa, ra)"
    by (cases "enqueue_locked input uuid ?wl")
  from free el have e: "enqueueTranscriptionJob pid input uuid w = (releaseLock wa, ra)"
    by (simp add: enqueueTranscriptionJob_def withLock_free)
  show ?thesis
  proof (cases "find (\<lambda>j. j_roundId j = in_roundId input \<and> is_active j) (queue_file ?wl)")
    case None
    with enqueue_locked_result[OF el] obtain job where j: "ra = Inr job"
      "wa = ?wl\<lparr>queue_file := queue_file ?wl @ [job]\<rparr>" "j_status job = JobQueued"
      "j_roundId job = in_roundId input" by auto
    with e show ?thesis by (simp add: releaseLock_def flags_def)
  next
    case (Some existing)
    with enqueue_locked_result[OF el] have j: "ra = Inr existing" "wa = ?wl" by auto
    from Some have ex: "existing \<in> set (queue_file w)" "j_roundId existing = in_roundId input"
      "is_active existing" by (auto simp: find_Some_iff)
    with noproc have "j_status existing = JobQueued" by (auto simp: is_active_def)
    with e j ex show ?thesis by (simp add: releaseLock_def flags_def)
  qed
qed

lemma POST_enqueues:
  assumes g: "getRound w r = Some round"
    and af: "r_audio_file round = Some path" "path \<noteq> []"
    and free: "lock_file w = None"
    and noproc: "\<forall>job \<in> set (queue_file w). j_roundId job = r \<longrightarrow> j_status job \<noteq> JobProcessing"
  shows "\<exists>job \<in> set (queue_file (fst (POST pid cwd uuid r w))).
           j_roundId job = r \<and> j_status job = JobQueued \<and>
           snd (POST pid cwd uuid r w) = Queued r (j_id job)"
    and "round_status (fst (POST pid cwd uuid r w)) r = Some PROCESSING"
proof -
  let ?u = "no_round_updates\<lparr>up_status := Some PROCESSING, up_audio_file := Some (Some path)\<rparr>"
  let ?w1 = "fst (updateRound w r ?u)"
  let ?input = "\<lparr> in_roundId = r, in_audioPath = cwd @ ''/public/'' @ strip_leading_slash path,
                  in_source = Recording \<rparr>"
  have uid: "up_id ?u = None" by (simp add: no_round_updates_def)
  from getRound_updateRound[OF uid, of w r r] g
  have rs1: "round_status ?w1 r = Some PROCESSING"
    by (simp add: round_status_def merge_round_def apply_opt_def)
  have f1: "lock_file ?w1 = None"
    "\<forall>job \<in> set (queue_file ?w1). j_roundId job = in_roundId ?input \<longrightarrow>
        j_status job \<noteq> JobProcessing"
    using free noproc by (simp_all add: updateRound_other_fields)
  from enqueue_free_result[OF f1, of pid uuid]
  obtain w2 job where e: "enqueueTranscriptionJob pid ?input uuid ?w1 = (w2, Inr job)"
    and j: "job \<in> set (queue_file w2)" "j_roundId job = r" "j_status job = JobQueued"
    and q2: "queue_file w2 = queue_file ?w1 \<or> queue_file w2 = queue_file ?w1 @ [job]"
    and l2: "lock_file w2 = None" and r2: "rounds_file w2 = rounds_file ?w1"
    by auto
  from r2 rs1 have rs2: "round_status w2 r = Some PROCESSING"
    by (simp add: round_status_def getRound_def)
  from q2 noproc j have np2: "\<forall>job \<in> set (queue_file w2). j_roundId job = r \<longrightarrow>
      j_status job \<noteq> JobProcessing"
    by (auto simp: updateRound_other_fields)
  have post: "POST pid cwd uuid r w =
      (case startTranscriptionWorker pid w2 of
         (w3, calls, Inl e) \<Rightarrow>
           (fst (updateRound w3 r (no_round_updates\<lparr>up_status := Some ERROR\<rparr>)),
            ServerError (error_message e))
       | (w3, calls, Inr u) \<Rightarrow> (w3, Queued r (j_id job)))"
    using g af e by (simp add: POST_def Let_def)
  have "(\<exists>job \<in> set (queue_file (fst (POST pid cwd uuid r w))).
           j_roundId job = r \<and> j_status job = JobQueued \<and>
           snd (POST pid cwd uuid r w) = Queued r (j_id job)) \<and>
        round_status (fst (POST pid cwd uuid r w)) r = Some PROCESSING"
  proof (cases "workerStarted w2")
    case True
    then have "POST pid cwd uuid r w = (w2, Queued r (j_id job))"
      by (simp add: post start_started)
    with j rs2 show ?thesis by auto
  next
    case False
    let ?w2s = "w2\<lparr>workerStarted := True\<rparr>"
    obtain w3 rr where rq: "recoverQueue pid ?w2s = (w3, rr)" by (cases "recoverQueue pid ?w2s")
    from recoverQueue_free[of ?w2s pid] l2 rq have rr: "rr = Inr ()" by simp
    from False rq rr have p: "POST pid cwd uuid r w = (w3\<lparr>loop_running := True\<rparr>, Queued r (j_id job))"
      by (simp add: post startTranscriptionWorker_def)
    from recoverQueue_result[OF rq] rr obtain c where
      q3: "queue_file w3 = map (reconcile_job (?w2s\<lparr>clock := c\<rparr>)) (queue_file ?w2s)"
      and rs3: "\<forall>rd. round_status w3 rd =
                 (if round_status ?w2s rd = None then None
                  else if (\<exists>job \<in> set (queue_file ?w2s). j_status job = JobProcessing \<and> j_roundId job = rd) \<and>
                          rd \<in> transcription_dir ?w2s then Some COMPLETED
                  else if (\<exists>job \<in> set (queue_file ?w2s). j_status job = JobProcessing \<and> j_roundId job = rd \<and>
                             \<not> j_attempts job < MAX_ATTEMPTS) then Some ERROR
                  else round_status ?w2s rd)"
      by auto
    from j(3) have "reconcile_job (?w2s\<lparr>clock := c\<rparr>) job = job"
      by (simp add: reconcile_job_def)
    with q3 j(1) have j3: "job \<in> set (queue_file w3)" by force
    from np2 have "\<not> (\<exists>job \<in> set (queue_file ?w2s). j_status job = JobProcessing \<and> j_roundId job = r)"
      by auto
    with rs3[rule_format, of r] rs2 have "round_status w3 r = Some PROCESSING"
      by (auto simp: round_status_fields)
    with p j j3 show ?thesis by (auto simp: round_status_fields)
  qed
  then show "\<exists>job \<in> set (queue_file (fst (POST pid cwd uuid r w))).
           j_roundId job = r \<and> j_status job = JobQueued \<and>
           snd (POST pid cwd uuid r w) = Queued r (j_id job)"
    and "round_status (fst (POST pid cwd uuid r w)) r = Some PROCESSING" by blast+
qed

lemma POST_lock_held:
  assumes g: "getRound w r = Some round"
    and af: "r_audio_file round = Some path" "path \<noteq> []"
    and held: "lock_file w = Some content"
      "\<not> lock_expired (clock w + (int maxRetries - 1) * retryDelayMs) content"
  shows "round_status (fst (POST pid cwd uuid r w)) r = Some ERROR"
    and "queue_file (fst (POST pid cwd uuid r w)) = queue_file w"
    and "snd (POST pid cwd uuid r w) = ServerError ''Queue lock timeout.''"
proof -
  let ?u = "no_round_updates\<lparr>up_status := Some PROCESSING, up_audio_file := Some (Some path)\<rparr>"
  let ?w1 = "fst (updateRound w r ?u)"
  let ?input = "\<lparr> in_roundId = r, in_audioPath = cwd @ ''/public/'' @ strip_leading_slash path,
                  in_source = Recording \<rparr>"
  let ?w2 = "?w1\<lparr>clock := clock ?w1 + int maxRetries * retryDelayMs\<rparr>"
  let ?e = "no_round_updates\<lparr>up_status := Some ERROR\<rparr>"
  have uid: "up_id ?u = None" by (simp add: no_round_updates_def)
  from getRound_updateRound[OF uid, of w r r] g
  have g1: "getRound ?w1 r \<noteq> None" by simp
  have h1: "lock_file ?w1 = Some content"
    "\<not> lock_expired (clock ?w1 + (int maxRetries - 1) * retryDelayMs) content"
    using held by (simp_all add: updateRound_other_fields)
  from withLock_held[OF h1, of pid "enqueue_locked ?input uuid"]
  have e: "enqueueTranscriptionJob pid ?input uuid ?w1 = (?w2, Inl QueueLockTimeout)"
    by (simp add: enqueueTranscriptionJob_def)
  have post: "POST pid cwd uuid r w = (fst (updateRound ?w2 r ?e), ServerError ''Queue lock timeout.'')"
    using g af e by (simp add: POST_def Let_def error_message_def)
  from g1 have "round_status ?w2 r \<noteq> None"
    by (simp add: round_status_def getRound_def)
  with updateRound_status[of ?w2 r ERROR r]
  show "round_status (fst (POST pid cwd uuid r w)) r = Some ERROR"
    unfolding post by simp
  show "queue_file (fst (POST pid cwd uuid r w)) = queue_file w"
    unfolding post by (simp add: updateRound_other_fields)
  show "snd (POST pid cwd uuid r w) = ServerError ''Queue lock timeout.''"
    unfolding post by simp
qed

lemma assembleChunks_js_all_present:
  assumes "\<forall>j. 0 \<le> j \<and> j < n \<longrightarrow> staged_files w r j \<noteq> None" and "artifact_write_ok io"
  shows "\<exists>w1. assembleChunks_js io w r n mime = (w1, Inr (''/audio/'' @ r @ ''.'' @ extension_of mime))"
  using read_chunks_ts_all[OF assms(1), of "[]"] assms(2)
  by (simp add: assembleChunks_js_ts assembleChunks_ts_def staged_files_def Let_def)

end
